theory Spec2Isabelle
  imports Main "HOL-Library.Word"
begin

unbundle bit_operations_syntax

section \<open>Data model\<close>

text \<open>
  The repository holds three revisions of one command-line tool. This development embeds
  two of them: the refactored program with \<open>run\<close>, \<open>MakeTilePlan\<close> and \<open>exportTile\<close>,
  and the single-function program of \<open>main.go\<close>, whose loop plans and exports in one pass.
  The third, a program with nine tile sizes that writes bitmaps only, is left aside.
  Grid coordinates, pixel sizes and the two running indices are Go \<open>int\<close>s that never go
  negative and stay far below \<open>2^63\<close>; they are natural numbers here. The identity counter
  is an \<open>int64\<close> added to a time stamp and is a 64-bit word.

  Names are those of the source. Where two structs share a field name the second one
  carries a prefix: \<open>TileCT\<close> for the field \<open>CT\<close> of \<open>Tile\<close>, and \<open>nbtCT\<close>, \<open>nbtAuthor\<close>,
  \<open>nbtTitle\<close> for fields of \<open>nbtDataStruct\<close>. The fields \<open>rows\<close>, \<open>cols\<close> and \<open>grid\<close> of
  \<open>OccGrid\<close> are \<open>nrows\<close>, \<open>ncols\<close> and \<open>cells\<close>.
\<close>

datatype error =
    MissingInput
  | DimensionError nat nat
  | NoFit nat nat
  | IndexOutOfRange
  | IOError string

type_synonym byte = "8 word"

text \<open>\<open>Canvas\<close>: a tile size in pixels and in 16-pixel units, with its type code.\<close>

record Canvas =
  PxW :: nat
  PxH :: nat
  UnitsW :: nat
  UnitsH :: nat
  CT :: byte

definition canvasTypes :: "Canvas list" where
  "canvasTypes =
    [\<lparr>PxW = 32, PxH = 32, UnitsW = 2, UnitsH = 2, CT = 1\<rparr>,
     \<lparr>PxW = 32, PxH = 16, UnitsW = 2, UnitsH = 1, CT = 2\<rparr>,
     \<lparr>PxW = 16, PxH = 32, UnitsW = 1, UnitsH = 2, CT = 3\<rparr>,
     \<lparr>PxW = 16, PxH = 16, UnitsW = 1, UnitsH = 1, CT = 0\<rparr>]"

text \<open>
  A colour is what Go's \<open>Color.RGBA()\<close> returns: four \<open>uint32\<close> channels. An image is its
  size and the colour at each pixel; decoded images have their origin at \<open>(0, 0)\<close>.
\<close>

type_synonym rgba = "32 word \<times> 32 word \<times> 32 word \<times> 32 word"

record Image =
  Dx :: nat
  Dy :: nat
  ColorAt :: "nat \<Rightarrow> nat \<Rightarrow> rgba"

text \<open>
  \<open>crop\<close> allocates an 8-bit RGBA image of size \<open>w\<close> by \<open>h\<close> and draws the source
  rectangle at \<open>(x, y)\<close> into it. The library's \<open>draw.Draw\<close> with \<open>draw.Src\<close> stores the
  high byte of each 16-bit channel, clipped to the source bounds; reading a pixel of an
  8-bit image back widens the byte \<open>v\<close> to \<open>v * 0x101\<close>, and a pixel outside the bounds
  reads as zero.
\<close>

definition widen8 :: "32 word \<Rightarrow> 32 word" where
  "widen8 ch = (let v = ucast (ucast (drop_bit 8 ch) :: byte) :: 32 word in v OR push_bit 8 v)"

definition toRGBA8 :: "rgba \<Rightarrow> rgba" where
  "toRGBA8 p = (case p of (r, g, b, a) \<Rightarrow> (widen8 r, widen8 g, widen8 b, widen8 a))"

definition crop :: "Image \<Rightarrow> nat \<Rightarrow> nat \<Rightarrow> nat \<Rightarrow> nat \<Rightarrow> Image" where
  "crop img x y w h =
    \<lparr>Dx = w, Dy = h,
     ColorAt = (\<lambda>xx yy.
       if xx < w \<and> yy < h \<and> x + xx < Dx img \<and> y + yy < Dy img
       then toRGBA8 (ColorAt img (x + xx) (y + yy)) else (0, 0, 0, 0))\<rparr>"

text \<open>
  \<open>Placement\<close> is bookkeeping of the model: the anchor cell and the unit size with which
  \<open>Mark\<close> was called for a tile, and the type code chosen. The source keeps these in the
  loop variables \<open>r\<close>, \<open>c\<close> and \<open>sel\<close> only.
\<close>

record Placement =
  pRow :: nat
  pCol :: nat
  pH :: nat
  pW :: nat
  pCT :: byte

text \<open>\<open>Tile\<close>: a cropped sub-image to export, with the source's five fields.\<close>

record Tile =
  Img :: Image
  TileCT :: byte
  FileBase :: string
  TileIndex :: nat
  RowIndex :: nat
  Placed :: Placement

section \<open>Formatting\<close>

text \<open>The verb \<open>%d\<close> of \<open>fmt.Sprintf\<close>: decimal digits, a minus sign for negatives.\<close>

definition digit :: "nat \<Rightarrow> char" where
  "digit n = ''0123456789'' ! n"

fun dec :: "nat \<Rightarrow> string" where
  "dec n = (if n < 10 then [digit n] else dec (n div 10) @ [digit (n mod 10)])"

declare dec.simps [simp del]

definition fmt_d :: "int \<Rightarrow> string" where
  "fmt_d i = (if i < 0 then CHR ''-'' # dec (nat (- i)) else dec (nat i))"

section \<open>Occupancy grid\<close>

text \<open>
  \<open>OccGrid\<close> is a slice of rows of booleans. Its methods take the struct by value, but
  the rows are shared, so \<open>Mark\<close> changes the caller's grid: the model returns the new
  grid. Indexing outside a slice panics; that is the error \<open>IndexOutOfRange\<close>.
\<close>

record OccGrid =
  nrows :: nat
  ncols :: nat
  cells :: "bool list list"

definition NewOccGrid :: "nat \<Rightarrow> nat \<Rightarrow> OccGrid" where
  "NewOccGrid rows cols =
    \<lparr>nrows = rows, ncols = cols, cells = replicate rows (replicate cols False)\<rparr>"

text \<open>Inner loop of \<open>Empty\<close>: \<open>x\<close> runs over \<open>n\<close> columns of row \<open>y\<close>.\<close>

fun EmptyCols :: "bool list list \<Rightarrow> nat \<Rightarrow> nat \<Rightarrow> nat \<Rightarrow> error + bool" where
  "EmptyCols g y x 0 = Inr True"
| "EmptyCols g y x (Suc n) =
    (if y < length g \<and> x < length (g ! y)
     then (if g ! y ! x then Inr False else EmptyCols g y (Suc x) n)
     else Inl IndexOutOfRange)"

text \<open>Outer loop of \<open>Empty\<close>: \<open>y\<close> runs over \<open>n\<close> rows.\<close>

fun EmptyRows :: "bool list list \<Rightarrow> nat \<Rightarrow> nat \<Rightarrow> nat \<Rightarrow> nat \<Rightarrow> error + bool" where
  "EmptyRows g y 0 c w = Inr True"
| "EmptyRows g y (Suc n) c w =
    (case EmptyCols g y c w of
       Inl e \<Rightarrow> Inl e
     | Inr False \<Rightarrow> Inr False
     | Inr True \<Rightarrow> EmptyRows g (Suc y) n c w)"

definition Empty :: "OccGrid \<Rightarrow> nat \<Rightarrow> nat \<Rightarrow> nat \<Rightarrow> nat \<Rightarrow> error + bool" where
  "Empty o' r c h w = EmptyRows (cells o') r h c w"

fun MarkCols :: "bool list list \<Rightarrow> nat \<Rightarrow> nat \<Rightarrow> nat \<Rightarrow> error + bool list list" where
  "MarkCols g y x 0 = Inr g"
| "MarkCols g y x (Suc n) =
    (if y < length g \<and> x < length (g ! y)
     then MarkCols (g[y := (g ! y)[x := True]]) y (Suc x) n
     else Inl IndexOutOfRange)"

fun MarkRows :: "bool list list \<Rightarrow> nat \<Rightarrow> nat \<Rightarrow> nat \<Rightarrow> nat \<Rightarrow> error + bool list list" where
  "MarkRows g y 0 c w = Inr g"
| "MarkRows g y (Suc n) c w =
    (case MarkCols g y c w of
       Inl e \<Rightarrow> Inl e
     | Inr g' \<Rightarrow> MarkRows g' (Suc y) n c w)"

definition Mark :: "OccGrid \<Rightarrow> nat \<Rightarrow> nat \<Rightarrow> nat \<Rightarrow> nat \<Rightarrow> error + OccGrid" where
  "Mark o' r c h w =
    (case MarkRows (cells o') r h c w of
       Inl e \<Rightarrow> Inl e
     | Inr g' \<Rightarrow> Inr (o'\<lparr>cells := g'\<rparr>))"

section \<open>The planner\<close>

text \<open>A loop over a list whose body may fail: the first error ends the loop.\<close>

fun foldE :: "('a \<Rightarrow> 's \<Rightarrow> error + 's) \<Rightarrow> 'a list \<Rightarrow> 's \<Rightarrow> error + 's" where
  "foldE f [] s = Inr s"
| "foldE f (x # xs) s = (case f x s of Inl e \<Rightarrow> Inl e | Inr s' \<Rightarrow> foldE f xs s')"

text \<open>
  The search \<open>for _, can := range canvasTypes\<close> of \<open>MakeTilePlan\<close>: the first entry that
  is in bounds and whose cells are all free; \<open>None\<close> when the loop ends with
  \<open>found = false\<close>.
\<close>

fun selectCanvas ::
  "OccGrid \<Rightarrow> nat \<Rightarrow> nat \<Rightarrow> nat \<Rightarrow> nat \<Rightarrow> Canvas list \<Rightarrow> error + Canvas option" where
  "selectCanvas occ rows cols r c [] = Inr None"
| "selectCanvas occ rows cols r c (can # cans) =
    (if c + UnitsW can > cols \<or> r + UnitsH can > rows
     then selectCanvas occ rows cols r c cans
     else (case Empty occ r c (UnitsH can) (UnitsW can) of
             Inl e \<Rightarrow> Inl e
           | Inr False \<Rightarrow> selectCanvas occ rows cols r c cans
           | Inr True \<Rightarrow> Inr (Some can)))"

text \<open>
  The state of the column loop: the grid, the tiles so far, \<open>tileIndex\<close> and
  \<open>hasValidTileInRow\<close>.
\<close>

type_synonym colState = "OccGrid \<times> Tile list \<times> nat \<times> bool"

definition sprintf_sdd :: "string \<Rightarrow> nat \<Rightarrow> nat \<Rightarrow> string" where
  "sprintf_sdd s a b = s @ ''_'' @ fmt_d (int a) @ ''_'' @ fmt_d (int b)"

text \<open>The body of the column loop of \<open>MakeTilePlan\<close> at cell \<open>(r, c)\<close>.\<close>

definition planCell ::
  "Image \<Rightarrow> nat \<Rightarrow> nat \<Rightarrow> string \<Rightarrow> nat \<Rightarrow> nat \<Rightarrow> nat \<Rightarrow> colState \<Rightarrow> error + colState" where
  "planCell img rows cols nameRoot rowIndex r c st =
    (case st of (occ, tiles, tileIndex, hasValidTileInRow) \<Rightarrow>
      (case Empty occ r c 1 1 of
         Inl e \<Rightarrow> Inl e
       | Inr False \<Rightarrow> Inr st
       | Inr True \<Rightarrow>
          (case selectCanvas occ rows cols r c canvasTypes of
             Inl e \<Rightarrow> Inl e
           | Inr None \<Rightarrow> Inl (NoFit r c)
           | Inr (Some sel) \<Rightarrow>
              (case Mark occ r c (UnitsH sel) (UnitsW sel) of
                 Inl e \<Rightarrow> Inl e
               | Inr occ' \<Rightarrow>
                  Inr (occ',
                       tiles @
                         [\<lparr>Img = crop img (c * 16) (r * 16) (PxW sel) (PxH sel),
                           TileCT = CT sel,
                           FileBase = sprintf_sdd nameRoot rowIndex tileIndex,
                           TileIndex = tileIndex,
                           RowIndex = rowIndex,
                           Placed = \<lparr>pRow = r, pCol = c, pH = UnitsH sel,
                                     pW = UnitsW sel, pCT = CT sel\<rparr>\<rparr>],
                       tileIndex + 1,
                       True)))))"

text \<open>
  The body of the row loop: scan the columns of row \<open>r\<close> with \<open>tileIndex = 0\<close>, then
  advance \<open>rowIndex\<close> if the row placed a tile.
\<close>

type_synonym rowState = "OccGrid \<times> Tile list \<times> nat"

definition planRow ::
  "Image \<Rightarrow> nat \<Rightarrow> nat \<Rightarrow> string \<Rightarrow> nat \<Rightarrow> rowState \<Rightarrow> error + rowState" where
  "planRow img rows cols nameRoot r st =
    (case st of (occ, tiles, rowIndex) \<Rightarrow>
      (case foldE (planCell img rows cols nameRoot rowIndex r) [0..<cols]
              (occ, tiles, 0, False) of
         Inl e \<Rightarrow> Inl e
       | Inr (occ', tiles', tileIndex, hasValidTileInRow) \<Rightarrow>
          Inr (occ', tiles', if hasValidTileInRow then rowIndex + 1 else rowIndex)))"

definition planRows :: "Image \<Rightarrow> nat \<Rightarrow> nat \<Rightarrow> string \<Rightarrow> error + rowState" where
  "planRows img rows cols nameRoot =
    foldE (planRow img rows cols nameRoot) [0..<rows] (NewOccGrid rows cols, [], 0)"

definition MakeTilePlan :: "Image \<Rightarrow> nat \<Rightarrow> nat \<Rightarrow> string \<Rightarrow> error + Tile list" where
  "MakeTilePlan img rows cols nameRoot =
    (case planRows img rows cols nameRoot of
       Inl e \<Rightarrow> Inl e
     | Inr (occ, tiles, rowIndex) \<Rightarrow> Inr tiles)"

section \<open>Export\<close>

text \<open>
  \<open>Config\<close> as \<open>parseFlags\<close> fills it. \<open>BaseID\<close> is \<open>time.Now().UnixNano()\<close>, an
  \<open>int64\<close>.
\<close>

record Config =
  InputPath :: string
  Author :: string
  Title :: string
  OutDir :: string
  NameRoot :: string
  BaseID :: "64 word"

definition paintingUUID :: string where
  "paintingUUID = ''d1ebe29f-f4e9-4572-83cd-8b2cdbfc2420''"

text \<open>
  The library functions \<open>filepath.Base\<close>, \<open>filepath.Ext\<close> and \<open>strings.TrimSuffix\<close>,
  written after their Go sources for a Unix path: \<open>Base\<close> strips trailing slashes and
  returns the last element (\<open>.\<close> for the empty path, \<open>/\<close> for slashes only); \<open>Ext\<close> is
  the suffix from the last dot of the last element.
\<close>

definition Base :: "string \<Rightarrow> string" where
  "Base p =
    (if p = [] then ''.''
     else (let q = dropWhile (\<lambda>ch. ch = CHR ''/'') (rev p);
               e = rev (takeWhile (\<lambda>ch. ch \<noteq> CHR ''/'') q)
           in if e = [] then ''/'' else e))"

fun extScan :: "string \<Rightarrow> string \<Rightarrow> string" where
  "extScan [] acc = []"
| "extScan (ch # rest) acc =
    (if ch = CHR ''/'' then []
     else if ch = CHR ''.'' then ch # acc
     else extScan rest (ch # acc))"

definition Ext :: "string \<Rightarrow> string" where
  "Ext p = extScan (rev p) []"

definition TrimSuffix :: "string \<Rightarrow> string \<Rightarrow> string" where
  "TrimSuffix s suffix =
    (if length suffix \<le> length s \<and> drop (length s - length suffix) s = suffix
     then take (length s - length suffix) s else s)"

text \<open>The name root that \<open>parseFlags\<close> derives from the input path.\<close>

definition nameRootOf :: "string \<Rightarrow> string" where
  "nameRootOf input = (let base = Base input in TrimSuffix base (Ext base))"

text \<open>
  \<open>parseFlags\<close>, from the values of the four flags and the clock on: it ends the
  process when the input path is empty, and fills the configuration otherwise.
\<close>

definition parseFlags ::
  "string \<Rightarrow> string \<Rightarrow> string \<Rightarrow> string \<Rightarrow> 64 word \<Rightarrow> error + Config" where
  "parseFlags input author title out now =
    (if input = [] then Inl MissingInput
     else Inr \<lparr>InputPath = input, Author = author, Title = title, OutDir = out,
               NameRoot = nameRootOf input, BaseID = now\<rparr>)"

text \<open>\<open>trimExt\<close> of \<open>main.go\<close>: \<open>fname[:len(fname)-len(ext)]\<close>.\<close>

definition trimExt :: "string \<Rightarrow> string" where
  "trimExt fname = (let ext = Ext fname in take (length fname - length ext) fname)"

text \<open>\<open>nbtDataStruct\<close>: the record encoded into a \<open>.paint\<close> file.\<close>

record nbtDataStruct =
  Generation :: "32 word"
  nbtCT :: byte
  Pixels :: "32 word list"
  V :: "32 word"
  nbtAuthor :: string
  nbtTitle :: string
  Name :: string

text \<open>
  Files are written through the operating system. The model keeps the log of the writes
  that succeeded, in order: the directory and file name handed to \<open>filepath.Join\<close> and
  the data encoded. Whether the output directory can be made and whether a file can be
  created and written are parameters of the run. \<open>writeBMP\<close> and \<open>writePaint\<close> return
  an error when the file cannot be created or the encoder fails; both are the error
  \<open>IOError\<close> here, and a file whose writing fails is not in the log.
\<close>

datatype content = BMP Image | Paint nbtDataStruct

record File =
  fdir :: string
  fname :: string
  fdata :: content

record Env =
  canMkdir :: "string \<Rightarrow> bool"
  canCreate :: "string \<Rightarrow> string \<Rightarrow> bool"

type_synonym outcome = "File list \<times> error option"

definition writeBMP :: "Env \<Rightarrow> string \<Rightarrow> string \<Rightarrow> Image \<Rightarrow> File list \<Rightarrow> outcome" where
  "writeBMP env dir name img log =
    (if canCreate env dir name
     then (log @ [\<lparr>fdir = dir, fname = name, fdata = BMP img\<rparr>], None)
     else (log, Some (IOError name)))"

definition writePaint ::
  "Env \<Rightarrow> string \<Rightarrow> string \<Rightarrow> nbtDataStruct \<Rightarrow> File list \<Rightarrow> outcome" where
  "writePaint env dir name d log =
    (if canCreate env dir name
     then (log @ [\<lparr>fdir = dir, fname = name, fdata = Paint d\<rparr>], None)
     else (log, Some (IOError name)))"

text \<open>
  One packed pixel of \<open>exportTile\<close>:
  \<open>alpha | uint32(uint8(r8>>8))<<16 | uint32(uint8(g8>>8))<<8 | uint32(uint8(b8>>8))\<close>.
\<close>

definition packPixel :: "rgba \<Rightarrow> 32 word" where
  "packPixel p =
    (case p of (r8, g8, b8, a8) \<Rightarrow>
      push_bit 24 (0xFF :: 32 word)
        OR push_bit 16 (ucast (ucast (drop_bit 8 r8) :: byte) :: 32 word)
        OR push_bit 8 (ucast (ucast (drop_bit 8 g8) :: byte) :: 32 word)
        OR (ucast (ucast (drop_bit 8 b8) :: byte) :: 32 word))"

text \<open>
  The pixel loops of \<open>exportTile\<close>: \<open>y\<close> outer, \<open>x\<close> inner, writing \<open>pixels[idx]\<close> and
  advancing \<open>idx\<close>. The state is the slice and \<open>idx\<close>; a write outside the slice
  panics.
\<close>

definition pixelStep ::
  "Image \<Rightarrow> nat \<Rightarrow> nat \<Rightarrow> 32 word list \<times> nat \<Rightarrow> error + 32 word list \<times> nat" where
  "pixelStep img y x st =
    (case st of (pixels, idx) \<Rightarrow>
      if idx < length pixels
      then Inr (pixels[idx := packPixel (ColorAt img x y)], idx + 1)
      else Inl IndexOutOfRange)"

definition pixelRow ::
  "Image \<Rightarrow> nat \<Rightarrow> nat \<Rightarrow> 32 word list \<times> nat \<Rightarrow> error + 32 word list \<times> nat" where
  "pixelRow img w y st = foldE (pixelStep img y) [0..<w] st"

definition buildPixels :: "Image \<Rightarrow> error + 32 word list" where
  "buildPixels img =
    (let h = Dy img; w = Dx img
     in case foldE (pixelRow img w) [0..<h] (replicate (w * h) 0, 0) of
          Inl e \<Rightarrow> Inl e
        | Inr (pixels, idx) \<Rightarrow> Inr pixels)"

definition sprintf_sd :: "string \<Rightarrow> int \<Rightarrow> string" where
  "sprintf_sd s i = s @ ''_'' @ fmt_d i"

text \<open>The descriptor that \<open>exportTile\<close> assembles for a tile from its pixel array.\<close>

definition tileNBT :: "Config \<Rightarrow> Tile \<Rightarrow> 64 word \<Rightarrow> 32 word list \<Rightarrow> nbtDataStruct" where
  "tileNBT cfg tile counter pixels =
    \<lparr>Generation = 1,
     nbtCT = TileCT tile,
     Pixels = pixels,
     V = 2,
     nbtAuthor = Author cfg,
     nbtTitle = Title cfg,
     Name = sprintf_sd paintingUUID (sint (BaseID cfg + counter))\<rparr>"

definition exportTile :: "Env \<Rightarrow> Config \<Rightarrow> Tile \<Rightarrow> 64 word \<Rightarrow> File list \<Rightarrow> outcome" where
  "exportTile env cfg tile counter log =
    (case writeBMP env (OutDir cfg) (FileBase tile @ ''.bmp'') (Img tile) log of
       (log1, Some e) \<Rightarrow> (log1, Some e)
     | (log1, None) \<Rightarrow>
        (case buildPixels (Img tile) of
           Inl e \<Rightarrow> (log1, Some e)
         | Inr pixels \<Rightarrow>
             writePaint env (OutDir cfg) (FileBase tile @ ''.paint'')
               (tileNBT cfg tile counter pixels) log1))"

text \<open>The export loop of \<open>run\<close>: the counter advances after each tile exported.\<close>

fun exportLoop :: "Env \<Rightarrow> Config \<Rightarrow> Tile list \<Rightarrow> 64 word \<Rightarrow> File list \<Rightarrow> outcome" where
  "exportLoop env cfg [] counter log = (log, None)"
| "exportLoop env cfg (tile # rest) counter log =
    (case exportTile env cfg tile counter log of
       (log', Some e) \<Rightarrow> (log', Some e)
     | (log', None) \<Rightarrow> exportLoop env cfg rest (counter + 1) log')"

text \<open>
  \<open>run\<close>, from the decoded image on: the divisibility check, the plan, the output
  directory, the export loop.
\<close>

definition run :: "Env \<Rightarrow> Config \<Rightarrow> Image \<Rightarrow> outcome" where
  "run env cfg img =
    (let w = Dx img; h = Dy img
     in if w mod 16 \<noteq> 0 \<or> h mod 16 \<noteq> 0 then ([], Some (DimensionError w h))
        else (let cols = w div 16; rows = h div 16
              in case MakeTilePlan img rows cols (NameRoot cfg) of
                   Inl e \<Rightarrow> ([], Some e)
                 | Inr plan \<Rightarrow>
                     if \<not> canMkdir env (OutDir cfg) then ([], Some (IOError (OutDir cfg)))
                     else exportLoop env cfg plan 0 []))"

section \<open>The single-function program of main.go\<close>

text \<open>
  Its catalog holds pixel sizes and the type code; the unit sizes are computed in the
  selection loop. The selected entry is an anonymous struct with five fields. The
  program keeps the values of its flags and the time stamp in local variables; the model
  takes them from a \<open>Config\<close>, whose \<open>NameRoot\<close> it does not read and whose \<open>BaseID\<close>
  stands for \<open>time.Now().Unix()\<close>. The namespace string is the canonical form of the
  UUID that the program parses, which is the string it parses.
\<close>

definition canvasTypes_main :: "(nat \<times> nat \<times> byte) list" where
  "canvasTypes_main = [(32, 32, 1), (32, 16, 2), (16, 32, 3), (16, 16, 0)]"

record Sel =
  wUnits :: nat
  hUnits :: nat
  wPx :: nat
  hPx :: nat
  ct :: byte

text \<open>
  The occupancy check of main.go sets \<open>hit\<close> and leaves the inner loop at the first
  occupied cell; the outer loop runs while \<open>hit\<close> is false.
\<close>

fun hitCols :: "bool list list \<Rightarrow> nat \<Rightarrow> nat \<Rightarrow> nat \<Rightarrow> error + bool" where
  "hitCols g y x 0 = Inr False"
| "hitCols g y x (Suc n) =
    (if y < length g \<and> x < length (g ! y)
     then (if g ! y ! x then Inr True else hitCols g y (Suc x) n)
     else Inl IndexOutOfRange)"

fun hitRows :: "bool list list \<Rightarrow> nat \<Rightarrow> nat \<Rightarrow> nat \<Rightarrow> nat \<Rightarrow> error + bool" where
  "hitRows g y 0 c w = Inr False"
| "hitRows g y (Suc n) c w =
    (case hitCols g y c w of
       Inl e \<Rightarrow> Inl e
     | Inr True \<Rightarrow> Inr True
     | Inr False \<Rightarrow> hitRows g (Suc y) n c w)"

fun selectMain ::
  "bool list list \<Rightarrow> nat \<Rightarrow> nat \<Rightarrow> nat \<Rightarrow> nat \<Rightarrow> (nat \<times> nat \<times> byte) list \<Rightarrow> error + Sel option"
  where
  "selectMain occ rows cols r c [] = Inr None"
| "selectMain occ rows cols r c (can # cans) =
    (case can of (w, h, t) \<Rightarrow>
      (let wU = w div 16; hU = h div 16
       in if c + wU > cols \<or> r + hU > rows
          then selectMain occ rows cols r c cans
          else (case hitRows occ r hU c wU of
                  Inl e \<Rightarrow> Inl e
                | Inr True \<Rightarrow> selectMain occ rows cols r c cans
                | Inr False \<Rightarrow>
                    Inr (Some \<lparr>wUnits = wU, hUnits = hU, wPx = w, hPx = h, ct = t\<rparr>))))"

text \<open>
  One packed pixel of main.go:
  \<open>int32(0xFF<<24 | int(r8)<<16 | int(g8)<<8 | int(b8))\<close> with \<open>r8 = uint8(r>>8)\<close>; the
  expression is a 64-bit \<open>int\<close>, the conversion keeps its low 32 bits.
\<close>

definition packPixel_main :: "rgba \<Rightarrow> 32 word" where
  "packPixel_main p =
    (case p of (r, g, b, a) \<Rightarrow>
      (let r8 = ucast (drop_bit 8 r) :: byte;
           g8 = ucast (drop_bit 8 g) :: byte;
           b8 = ucast (drop_bit 8 b) :: byte
       in ucast (push_bit 24 (0xFF :: 64 word)
                   OR push_bit 16 (ucast r8 :: 64 word)
                   OR push_bit 8 (ucast g8 :: 64 word)
                   OR (ucast b8 :: 64 word))))"

definition pixelStep_main ::
  "Image \<Rightarrow> nat \<Rightarrow> nat \<Rightarrow> nat \<Rightarrow> 32 word list \<Rightarrow> error + 32 word list" where
  "pixelStep_main sub w yy xx pixels =
    (if yy * w + xx < length pixels
     then Inr (pixels[yy * w + xx := packPixel_main (ColorAt sub xx yy)])
     else Inl IndexOutOfRange)"

definition pixelRow_main ::
  "Image \<Rightarrow> nat \<Rightarrow> nat \<Rightarrow> 32 word list \<Rightarrow> error + 32 word list" where
  "pixelRow_main sub w yy pixels = foldE (pixelStep_main sub w yy) [0..<w] pixels"

definition buildPixels_main :: "Image \<Rightarrow> nat \<Rightarrow> nat \<Rightarrow> error + 32 word list" where
  "buildPixels_main sub w h = foldE (pixelRow_main sub w) [0..<h] (replicate (w * h) 0)"

text \<open>
  What one pass of the loop body produces for a tile: the base name of its two files,
  the cropped image, the descriptor, and the placement. The results of \<open>os.Create\<close> and
  of the encoders are dropped by main.go, so a file that cannot be created is skipped
  and the run goes on.
\<close>

record Exported =
  nameBase :: string
  subImg :: Image
  nbtData :: nbtDataStruct
  xPlaced :: Placement

definition writeQuiet :: "Env \<Rightarrow> string \<Rightarrow> string \<Rightarrow> content \<Rightarrow> File list \<Rightarrow> File list" where
  "writeQuiet env dir name d log =
    (if canCreate env dir name then log @ [\<lparr>fdir = dir, fname = name, fdata = d\<rparr>] else log)"

type_synonym mainState = "bool list list \<times> 64 word \<times> File list \<times> Exported list"

text \<open>The body of the column loop of main.go at cell \<open>(r, c)\<close>.\<close>

definition mainCell ::
  "Env \<Rightarrow> Config \<Rightarrow> Image \<Rightarrow> nat \<Rightarrow> nat \<Rightarrow> nat \<Rightarrow> nat \<Rightarrow> mainState \<Rightarrow> error + mainState" where
  "mainCell env cfg img rows cols r c st =
    (case st of (occ, counter, log, done) \<Rightarrow>
      (if \<not> (r < length occ \<and> c < length (occ ! r)) then Inl IndexOutOfRange
       else if occ ! r ! c then Inr st
       else
        (case selectMain occ rows cols r c canvasTypes_main of
           Inl e \<Rightarrow> Inl e
         | Inr None \<Rightarrow> Inl (NoFit r c)
         | Inr (Some sel) \<Rightarrow>
            (case MarkRows occ r (hUnits sel) c (wUnits sel) of
               Inl e \<Rightarrow> Inl e
             | Inr occ' \<Rightarrow>
                (let sub = crop img (c * 16) (r * 16) (wPx sel) (hPx sel);
                     base = Base (InputPath cfg);
                     nameBase = sprintf_sdd (trimExt base) c r;
                     log1 = writeQuiet env (OutDir cfg) (nameBase @ ''.bmp'') (BMP sub) log
                 in case buildPixels_main sub (wPx sel) (hPx sel) of
                      Inl e \<Rightarrow> Inl e
                    | Inr pixels \<Rightarrow>
                       (let d = \<lparr>Generation = 1, nbtCT = ct sel, Pixels = pixels, V = 2,
                                 nbtAuthor = Author cfg, nbtTitle = Title cfg,
                                 Name = sprintf_sd paintingUUID (sint (BaseID cfg + counter))\<rparr>;
                            log2 = writeQuiet env (OutDir cfg) (nameBase @ ''.paint'')
                                     (Paint d) log1
                        in Inr (occ', counter + 1, log2,
                                done @ [\<lparr>nameBase = nameBase, subImg = sub, nbtData = d,
                                         xPlaced = \<lparr>pRow = r, pCol = c, pH = hUnits sel,
                                                    pW = wUnits sel, pCT = ct sel\<rparr>\<rparr>])))))))"

definition mainRow ::
  "Env \<Rightarrow> Config \<Rightarrow> Image \<Rightarrow> nat \<Rightarrow> nat \<Rightarrow> nat \<Rightarrow> mainState \<Rightarrow> error + mainState" where
  "mainRow env cfg img rows cols r st = foldE (mainCell env cfg img rows cols r) [0..<cols] st"

text \<open>
  \<open>main\<close>, from the decoded image on: the divisibility check, the grid, the output
  directory, the loop. A fatal log message ends the process; it is the error returned.
  The marking loops of main.go are those of \<open>Mark\<close>, so the model uses \<open>MarkRows\<close> for
  them.
\<close>

definition main :: "Env \<Rightarrow> Config \<Rightarrow> Image \<Rightarrow> error + File list \<times> Exported list" where
  "main env cfg img =
    (let w = Dx img; h = Dy img
     in if w mod 16 \<noteq> 0 \<or> h mod 16 \<noteq> 0 then Inl (DimensionError w h)
        else (let cols = w div 16; rows = h div 16;
                  occ = replicate rows (replicate cols False)
              in if \<not> canMkdir env (OutDir cfg) then Inl (IOError (OutDir cfg))
                 else (case foldE (mainRow env cfg img rows cols) [0..<rows] (occ, 0, [], []) of
                         Inl e \<Rightarrow> Inl e
                       | Inr (occ', counter, log, done) \<Rightarrow> Inr (log, done))))"

section \<open>Notions used in the statements\<close>

text \<open>A grid of \<open>rows\<close> by \<open>cols\<close> cells, and the set of its occupied cells.\<close>

definition wf_grid :: "nat \<Rightarrow> nat \<Rightarrow> bool list list \<Rightarrow> bool" where
  "wf_grid rows cols g = (length g = rows \<and> (\<forall>row \<in> set g. length row = cols))"

definition occset :: "nat \<Rightarrow> nat \<Rightarrow> bool list list \<Rightarrow> (nat \<times> nat) set" where
  "occset rows cols g = {(y, x). y < rows \<and> x < cols \<and> g ! y ! x}"

text \<open>The rectangle of cells with top-left corner \<open>(r, c)\<close>, \<open>h\<close> rows high, \<open>w\<close> columns wide.\<close>

definition rect :: "nat \<Rightarrow> nat \<Rightarrow> nat \<Rightarrow> nat \<Rightarrow> (nat \<times> nat) set" where
  "rect r c h w = {r..<r + h} \<times> {c..<c + w}"

text \<open>The footprint and the area of a placement, and the cells a list of placements covers.\<close>

definition foot :: "Placement \<Rightarrow> (nat \<times> nat) set" where
  "foot p = rect (pRow p) (pCol p) (pH p) (pW p)"

definition area :: "Placement \<Rightarrow> nat" where
  "area p = pW p * pH p"

definition covered :: "Placement list \<Rightarrow> (nat \<times> nat) set" where
  "covered ps = (\<Union>p \<in> set ps. foot p)"

text \<open>
  An exact tiling: every cell of the grid lies in the footprint of exactly one placement
  of the list, and the areas add up to the number of cells.
\<close>

definition tiling :: "nat \<Rightarrow> nat \<Rightarrow> Placement list \<Rightarrow> bool" where
  "tiling rows cols ps =
    ((\<forall>y < rows. \<forall>x < cols. \<exists>!i. i < length ps \<and> (y, x) \<in> foot (ps ! i))
     \<and> sum_list (map area ps) = rows * cols)"

text \<open>
  A canvas of \<open>h\<close> by \<open>w\<close> units fits at \<open>(r, c)\<close> when it stays within the grid and none
  of its cells is in the occupied set \<open>O\<close>.
\<close>

definition fitsAt ::
  "nat \<Rightarrow> nat \<Rightarrow> (nat \<times> nat) set \<Rightarrow> nat \<Rightarrow> nat \<Rightarrow> nat \<Rightarrow> nat \<Rightarrow> bool" where
  "fitsAt rows cols O' r c h w = (c + w \<le> cols \<and> r + h \<le> rows \<and> rect r c h w \<inter> O' = {})"

text \<open>The catalog as unit height, unit width and type code, in its order.\<close>

definition catalog :: "(nat \<times> nat \<times> byte) list" where
  "catalog = map (\<lambda>can. (UnitsH can, UnitsW can, CT can)) canvasTypes"

text \<open>
  A placement is the first fit for the occupied set \<open>O\<close>: it is an entry of the catalog
  that fits at its anchor, and no earlier entry fits there.
\<close>

definition firstFit :: "nat \<Rightarrow> nat \<Rightarrow> (nat \<times> nat) set \<Rightarrow> Placement \<Rightarrow> bool" where
  "firstFit rows cols O' p =
    (\<exists>k < length catalog.
       catalog ! k = (pH p, pW p, pCT p)
       \<and> fitsAt rows cols O' (pRow p) (pCol p) (pH p) (pW p)
       \<and> (\<forall>j < k. \<not> fitsAt rows cols O' (pRow p) (pCol p)
                      (fst (catalog ! j)) (fst (snd (catalog ! j)))))"

text \<open>Cell \<open>(y, x)\<close> is scanned before cell \<open>(r, c)\<close> in row-major order.\<close>

definition before :: "nat \<Rightarrow> nat \<Rightarrow> nat \<Rightarrow> nat \<Rightarrow> bool" where
  "before y x r c = (y < r \<or> (y = r \<and> x < c))"

text \<open>
  A placement is the greedy one for the occupied set \<open>O\<close>: its anchor is the first free
  cell of the grid in row-major order, and it is the first fit there.
\<close>

definition greedyAt :: "nat \<Rightarrow> nat \<Rightarrow> (nat \<times> nat) set \<Rightarrow> Placement \<Rightarrow> bool" where
  "greedyAt rows cols O' p =
    (pRow p < rows \<and> pCol p < cols \<and> (pRow p, pCol p) \<notin> O'
     \<and> (\<forall>y < rows. \<forall>x < cols. before y x (pRow p) (pCol p) \<longrightarrow> (y, x) \<in> O')
     \<and> firstFit rows cols O' p)"

text \<open>
  Every placement of a list is the greedy one for the cells that the placements before
  it cover.
\<close>

definition greedy :: "nat \<Rightarrow> nat \<Rightarrow> Placement list \<Rightarrow> bool" where
  "greedy rows cols ps = (\<forall>i < length ps. greedyAt rows cols (covered (take i ps)) (ps ! i))"

text \<open>
  The invariant of the scan when it is about to visit cell \<open>(r, c)\<close>, for the grid \<open>g\<close>
  and the placements \<open>ps\<close> made so far.
\<close>

definition scanInv :: "nat \<Rightarrow> nat \<Rightarrow> nat \<Rightarrow> nat \<Rightarrow> bool list list \<Rightarrow> Placement list \<Rightarrow> bool" where
  "scanInv rows cols r c g ps =
    (wf_grid rows cols g
     \<and> occset rows cols g = covered ps
     \<and> (\<forall>y < rows. \<forall>x < cols. before y x r c \<longrightarrow> g ! y ! x)
     \<and> sum_list (map area ps) = card (covered ps)
     \<and> greedy rows cols ps)"

text \<open>
  A tile as \<open>MakeTilePlan\<close> builds it from an entry of the catalog: the image cropped at
  16 times its anchor, the entry's type code, and the file base made of the name root and
  the two indices.
\<close>

definition tileFrom :: "Image \<Rightarrow> string \<Rightarrow> Tile \<Rightarrow> bool" where
  "tileFrom img nameRoot t =
    (\<exists>can \<in> set canvasTypes.
       Img t = crop img (pCol (Placed t) * 16) (pRow (Placed t) * 16) (PxW can) (PxH can)
       \<and> TileCT t = CT can
       \<and> FileBase t = sprintf_sdd nameRoot (RowIndex t) (TileIndex t)
       \<and> pH (Placed t) = UnitsH can
       \<and> pW (Placed t) = UnitsW can
       \<and> pCT (Placed t) = CT can)"

text \<open>
  The index bookkeeping, for the tiles grouped by the physical row whose scan placed
  them: the tile at position \<open>k\<close> of the group of row \<open>r\<close> is anchored in row \<open>r\<close>, has
  tile index \<open>k\<close>, and its row-group index is the number of earlier rows that placed at
  least one tile.
\<close>

definition indexed :: "Tile list list \<Rightarrow> bool" where
  "indexed groups =
    (\<forall>r < length groups. \<forall>k < length (groups ! r).
       pRow (Placed (groups ! r ! k)) = r
       \<and> TileIndex (groups ! r ! k) = k
       \<and> RowIndex (groups ! r ! k) = length (filter (\<lambda>g. g \<noteq> []) (take r groups)))"

text \<open>The tiles of a plan grouped by the physical row of their anchor, in plan order.\<close>

definition groupsByRow :: "nat \<Rightarrow> Tile list \<Rightarrow> Tile list list" where
  "groupsByRow rows tiles = map (\<lambda>r. filter (\<lambda>t. pRow (Placed t) = r) tiles) [0..<rows]"

text \<open>
  The pixel array in the words of the specification. A packed value has four bytes, the
  most significant first. The byte kept of a colour channel is the high byte of its 16
  bits. The array of an image of width \<open>w\<close> and height \<open>h\<close> lists the packed pixels row
  by row: element \<open>y * w + x\<close> is the pixel at \<open>(x, y)\<close>.
\<close>

definition bytesOf :: "32 word \<Rightarrow> byte \<times> byte \<times> byte \<times> byte" where
  "bytesOf px = (ucast (drop_bit 24 px), ucast (drop_bit 16 px), ucast (drop_bit 8 px), ucast px)"

definition hi8 :: "32 word \<Rightarrow> byte" where
  "hi8 ch = ucast (drop_bit 8 ch)"

definition rowMajor :: "Image \<Rightarrow> nat \<Rightarrow> nat \<Rightarrow> 32 word list" where
  "rowMajor im w h = map (\<lambda>k. packPixel (ColorAt im (k mod w) (k div w))) [0..<w * h]"

text \<open>
  The claim about the pixel array \<open>px\<close> of an image: it has one element per pixel, and
  the bytes of element \<open>y * W + x\<close> are \<open>0xFF\<close> and the high bytes of the red, green and
  blue channels of the pixel at \<open>(x, y)\<close> of that image.
\<close>

definition packedRowMajor :: "Image \<Rightarrow> 32 word list \<Rightarrow> bool" where
  "packedRowMajor im px =
    (length px = Dx im * Dy im
     \<and> (\<forall>y < Dy im. \<forall>x < Dx im.
           bytesOf (px ! (y * Dx im + x)) =
             (case ColorAt im x y of (r, g, b, a) \<Rightarrow> (0xFF, hi8 r, hi8 g, hi8 b))))"

text \<open>
  The identity of the tile with number \<open>i\<close> of a run, in the words of the specification:
  the namespace, an underscore, and base plus counter in decimal, the sum taken in 64
  bits. The identities that a log of written files carries are the names of its
  descriptors, in order.
\<close>

definition identityOf :: "Config \<Rightarrow> nat \<Rightarrow> string" where
  "identityOf cfg i = paintingUUID @ ''_'' @ fmt_d (sint (BaseID cfg + of_nat i))"

fun paintNames :: "File list \<Rightarrow> string list" where
  "paintNames [] = []"
| "paintNames (f # fs) =
    (case fdata f of BMP im \<Rightarrow> paintNames fs | Paint d \<Rightarrow> Name d # paintNames fs)"

text \<open>
  The descriptors that a log of written files carries, each with the name of its file,
  in the order written.
\<close>

fun paintFiles :: "File list \<Rightarrow> (string \<times> nbtDataStruct) list" where
  "paintFiles [] = []"
| "paintFiles (f # fs) =
    (case fdata f of BMP im \<Rightarrow> paintFiles fs | Paint d \<Rightarrow> (fname f, d) # paintFiles fs)"

text \<open>
  The descriptor of a tile of the plan that is exported as number \<open>i\<close> of a run, with the
  name of its file: the file is named after the file base of the tile, the type code and
  the pixels are those of the tile, and the identity is that of the number \<open>i\<close>.
\<close>

definition descriptorOf :: "Config \<Rightarrow> Tile \<Rightarrow> nat \<Rightarrow> string \<times> nbtDataStruct" where
  "descriptorOf cfg t i =
    (FileBase t @ ''.paint'',
     \<lparr>Generation = 1, nbtCT = TileCT t,
      Pixels = rowMajor (Img t) (Dx (Img t)) (Dy (Img t)),
      V = 2, nbtAuthor = Author cfg, nbtTitle = Title cfg,
      Name = identityOf cfg i\<rparr>)"

text \<open>
  The descriptor file that \<open>exportTile\<close> writes for a tile when the counter has the value
  \<open>c\<close>.
\<close>

definition descAt :: "Config \<Rightarrow> Tile \<Rightarrow> 64 word \<Rightarrow> string \<times> nbtDataStruct" where
  "descAt cfg t c =
    (FileBase t @ ''.paint'', tileNBT cfg t c (rowMajor (Img t) (Dx (Img t)) (Dy (Img t))))"

text \<open>The entry that the selection loop of main.go builds from a catalog entry.\<close>

definition selOf :: "Canvas \<Rightarrow> Sel" where
  "selOf can =
    \<lparr>wUnits = UnitsW can, hUnits = UnitsH can, wPx = PxW can, hPx = PxH can, ct = CT can\<rparr>"

text \<open>
  What main.go produces for the tile with number \<open>i\<close> of a run, from an entry of the
  catalog: the base name made of the trimmed input name and the column and row of the
  anchor, the cropped image, and the descriptor with the identity \<open>BaseID + i\<close>.
\<close>

definition exportedFrom :: "Config \<Rightarrow> Image \<Rightarrow> nat \<Rightarrow> Exported \<Rightarrow> bool" where
  "exportedFrom cfg img i e =
    (\<exists>can \<in> set canvasTypes.
       nameBase e = sprintf_sdd (trimExt (Base (InputPath cfg)))
                      (pCol (xPlaced e)) (pRow (xPlaced e))
       \<and> subImg e = crop img (pCol (xPlaced e) * 16) (pRow (xPlaced e) * 16) (PxW can) (PxH can)
       \<and> nbtData e =
            \<lparr>Generation = 1, nbtCT = CT can,
             Pixels = rowMajor (subImg e) (PxW can) (PxH can),
             V = 2, nbtAuthor = Author cfg, nbtTitle = Title cfg,
             Name = sprintf_sd paintingUUID (sint (BaseID cfg + of_nat i))\<rparr>
       \<and> pH (xPlaced e) = UnitsH can
       \<and> pW (xPlaced e) = UnitsW can
       \<and> pCT (xPlaced e) = CT can)"

text \<open>The files that main.go writes for one tile: those of the two that can be created.\<close>

definition filesOf_main :: "Env \<Rightarrow> Config \<Rightarrow> Exported \<Rightarrow> File list" where
  "filesOf_main env cfg e =
    writeQuiet env (OutDir cfg) (nameBase e @ ''.paint'') (Paint (nbtData e))
      (writeQuiet env (OutDir cfg) (nameBase e @ ''.bmp'') (BMP (subImg e)) [])"

text \<open>
  The two programs in step: the same grid, the same placements in the same order, the
  counter at the number of tiles exported, and the log made of the files of each tile.
\<close>

definition inStep ::
  "Env \<Rightarrow> Config \<Rightarrow> Image \<Rightarrow> OccGrid \<Rightarrow> Tile list \<Rightarrow> mainState \<Rightarrow> bool" where
  "inStep env cfg img occ tiles m =
    (case m of (g, counter, log, done) \<Rightarrow>
      g = cells occ
      \<and> map xPlaced done = map Placed tiles
      \<and> counter = of_nat (length done)
      \<and> (\<forall>i < length done. exportedFrom cfg img i (done ! i))
      \<and> log = concat (map (filesOf_main env cfg) done))"

section \<open>Sample inputs\<close>

text \<open>A black image, an environment in which every file can be written, a configuration.\<close>

definition blank :: "nat \<Rightarrow> nat \<Rightarrow> Image" where
  "blank w h = \<lparr>Dx = w, Dy = h, ColorAt = (\<lambda>x y. (0, 0, 0, 0))\<rparr>"

definition permissive :: Env where
  "permissive = \<lparr>canMkdir = (\<lambda>d. True), canCreate = (\<lambda>d n. True)\<rparr>"

definition cfgPic :: Config where
  "cfgPic = \<lparr>InputPath = ''in/pic.png'', Author = ''Unknown'', Title = ''Untitled'',
             OutDir = ''tiles'', NameRoot = nameRootOf ''in/pic.png'', BaseID = 1000\<rparr>"

text \<open>An image of 16 by 16 pixels whose red grows with \<open>x\<close> and whose green grows with \<open>y\<close>.\<close>

definition ramp :: Image where
  "ramp = \<lparr>Dx = 16, Dy = 16,
           ColorAt = (\<lambda>x y. (word_of_nat (x * 4096), word_of_nat (y * 4096), 0xFFFF, 0xFFFF))\<rparr>"

text \<open>The row-group index and the tile index of each tile of a plan.\<close>

definition planIndices :: "error + Tile list \<Rightarrow> error + (nat \<times> nat) list" where
  "planIndices res =
    (case res of Inl e \<Rightarrow> Inl e | Inr tiles \<Rightarrow> Inr (map (\<lambda>t. (RowIndex t, TileIndex t)) tiles))"

text \<open>The base names and the placements of a finished run of main.go.\<close>

definition exportedNames :: "error + File list \<times> Exported list \<Rightarrow> error + string list" where
  "exportedNames res = (case res of Inl e \<Rightarrow> Inl e | Inr (log, done) \<Rightarrow> Inr (map nameBase done))"

definition exportedPlacements ::
  "error + File list \<times> Exported list \<Rightarrow> error + Placement list" where
  "exportedPlacements res =
    (case res of Inl e \<Rightarrow> Inl e | Inr (log, done) \<Rightarrow> Inr (map xPlaced done))"

section \<open>Evaluation on concrete inputs\<close>

lemma fmt_d_small: "n < 10 \<Longrightarrow> fmt_d (int n) = [digit n]"
  by (simp add: fmt_d_def dec.simps)

lemma sprintf_sdd_small:
  "a < 10 \<Longrightarrow> b < 10 \<Longrightarrow> sprintf_sdd s a b = s @ ''_'' @ [digit a] @ ''_'' @ [digit b]"
  by (simp add: sprintf_sdd_def fmt_d_small)

lemmas eval_plan = MakeTilePlan_def planRows_def planRow_def planCell_def upt_rec NewOccGrid_def
  Empty_def Mark_def canvasTypes_def numeral_2_eq_2 numeral_3_eq_3

lemmas eval_fmt = sprintf_sdd_small digit_def

lemma trimExt_pic: "trimExt (Base ''in/pic.png'') = ''pic''"
  by (simp add: trimExt_def Base_def Ext_def)

section \<open>The occupancy grid as a set of cells\<close>

lemma EmptyCols_wf:
  "y < length g \<Longrightarrow> x + n \<le> length (g ! y) \<Longrightarrow>
   EmptyCols g y x n = Inr (\<forall>i < n. \<not> g ! y ! (x + i))"
proof (induction n arbitrary: x)
  case 0
  then show ?case by simp
next
  case (Suc n)
  have "(\<forall>i < Suc n. \<not> g ! y ! (x + i)) = (\<not> g ! y ! x \<and> (\<forall>i < n. \<not> g ! y ! (Suc x + i)))"
    by (auto simp: less_Suc_eq_0_disj)
  with Suc show ?case by simp
qed

lemma wf_gridD: "wf_grid rows cols g \<Longrightarrow> y < rows \<Longrightarrow> y < length g \<and> length (g ! y) = cols"
  by (simp add: wf_grid_def)

lemma EmptyRows_wf:
  "wf_grid rows cols g \<Longrightarrow> y + n \<le> rows \<Longrightarrow> c + w \<le> cols \<Longrightarrow>
   EmptyRows g y n c w = Inr (\<forall>j < n. \<forall>i < w. \<not> g ! (y + j) ! (c + i))"
proof (induction n arbitrary: y)
  case 0
  then show ?case by simp
next
  case (Suc n)
  from Suc.prems have y: "y < length g" "c + w \<le> length (g ! y)"
    using wf_gridD [of rows cols g y] by auto
  have split: "(\<forall>j < Suc n. \<forall>i < w. \<not> g ! (y + j) ! (c + i)) =
      ((\<forall>i < w. \<not> g ! y ! (c + i)) \<and> (\<forall>j < n. \<forall>i < w. \<not> g ! (Suc y + j) ! (c + i)))"
    by (auto simp: less_Suc_eq_0_disj)
  have ih: "EmptyRows g (Suc y) n c w = Inr (\<forall>j < n. \<forall>i < w. \<not> g ! (Suc y + j) ! (c + i))"
    using Suc.IH [of "Suc y"] Suc.prems by simp
  show ?case
    using ih by (simp add: EmptyCols_wf [OF y] split split: bool.splits)
qed

lemma rect_free_iff:
  "r + h \<le> rows \<Longrightarrow> c + w \<le> cols \<Longrightarrow>
   (\<forall>j < h. \<forall>i < w. \<not> g ! (r + j) ! (c + i)) = (rect r c h w \<inter> occset rows cols g = {})"
proof
  assume b: "r + h \<le> rows" "c + w \<le> cols" and a: "\<forall>j < h. \<forall>i < w. \<not> g ! (r + j) ! (c + i)"
  show "rect r c h w \<inter> occset rows cols g = {}"
  proof (rule ccontr)
    assume "rect r c h w \<inter> occset rows cols g \<noteq> {}"
    then obtain y x where yx: "(y, x) \<in> rect r c h w" "(y, x) \<in> occset rows cols g" by auto
    then have "y - r < h" "x - c < w" "r + (y - r) = y" "c + (x - c) = x"
      by (auto simp: rect_def)
    with a have "\<not> g ! y ! x" by metis
    with yx show False by (simp add: occset_def)
  qed
next
  assume b: "r + h \<le> rows" "c + w \<le> cols" and e: "rect r c h w \<inter> occset rows cols g = {}"
  show "\<forall>j < h. \<forall>i < w. \<not> g ! (r + j) ! (c + i)"
  proof (intro allI impI)
    fix j i assume "j < h" "i < w"
    with b have "(r + j, c + i) \<in> rect r c h w" "r + j < rows" "c + i < cols"
      by (auto simp: rect_def)
    with e show "\<not> g ! (r + j) ! (c + i)" by (auto simp: occset_def)
  qed
qed

lemma Empty_fits:
  assumes "wf_grid rows cols (cells occ)" and "r + h \<le> rows" and "c + w \<le> cols"
  shows "Empty occ r c h w = Inr (rect r c h w \<inter> occset rows cols (cells occ) = {})"
  using assms by (simp add: Empty_def EmptyRows_wf rect_free_iff)

lemma selectCanvas_find:
  assumes "wf_grid rows cols (cells occ)"
  shows "selectCanvas occ rows cols r c cans =
    Inr (List.find (\<lambda>can. fitsAt rows cols (occset rows cols (cells occ)) r c
                             (UnitsH can) (UnitsW can)) cans)"
proof (induction cans)
  case Nil
  show ?case by simp
next
  case (Cons can cans)
  show ?case
  proof (cases "c + UnitsW can > cols \<or> r + UnitsH can > rows")
    case True
    then show ?thesis using Cons by (auto simp: fitsAt_def)
  next
    case False
    then have b: "r + UnitsH can \<le> rows" "c + UnitsW can \<le> cols" by auto
    show ?thesis
      using False Cons by (simp add: Empty_fits [OF assms b] fitsAt_def)
  qed
qed

lemma MarkCols_wf:
  "y < length g \<Longrightarrow> x + n \<le> length (g ! y) \<Longrightarrow>
   \<exists>g'. MarkCols g y x n = Inr g' \<and> length g' = length g
     \<and> (\<forall>j < length g. length (g' ! j) = length (g ! j))
     \<and> (\<forall>j < length g. \<forall>i < length (g ! j).
           g' ! j ! i = (g ! j ! i \<or> (j = y \<and> x \<le> i \<and> i < x + n)))"
proof (induction n arbitrary: g x)
  case 0
  then show ?case by auto
next
  case (Suc n)
  let ?g1 = "g[y := (g ! y)[x := True]]"
  have l1: "length ?g1 = length g" by simp
  have r1: "\<And>j. j < length g \<Longrightarrow> length (?g1 ! j) = length (g ! j)"
    using Suc.prems by (simp add: nth_list_update)
  have v1: "\<And>j i. j < length g \<Longrightarrow> i < length (g ! j) \<Longrightarrow>
      ?g1 ! j ! i = (g ! j ! i \<or> (j = y \<and> i = x))"
    using Suc.prems by (auto simp: nth_list_update)
  from Suc.prems have "y < length ?g1" "Suc x + n \<le> length (?g1 ! y)"
    by (simp_all add: nth_list_update)
  from Suc.IH [OF this] obtain g' where g':
    "MarkCols ?g1 y (Suc x) n = Inr g'" "length g' = length ?g1"
    "\<forall>j < length ?g1. length (g' ! j) = length (?g1 ! j)"
    "\<forall>j < length ?g1. \<forall>i < length (?g1 ! j).
        g' ! j ! i = (?g1 ! j ! i \<or> (j = y \<and> Suc x \<le> i \<and> i < Suc x + n))"
    by blast
  have a: "MarkCols g y x (Suc n) = Inr g'"
    using Suc.prems g'(1) by simp
  have b: "length g' = length g" using g'(2) by simp
  have c: "\<forall>j < length g. length (g' ! j) = length (g ! j)"
    using g'(3) r1 by simp
  have d: "\<forall>j < length g. \<forall>i < length (g ! j).
        g' ! j ! i = (g ! j ! i \<or> (j = y \<and> x \<le> i \<and> i < x + Suc n))"
  proof (intro allI impI)
    fix j i assume ji: "j < length g" "i < length (g ! j)"
    then have "g' ! j ! i = (?g1 ! j ! i \<or> (j = y \<and> Suc x \<le> i \<and> i < Suc x + n))"
      using g'(4) r1 by simp
    also have "\<dots> = (g ! j ! i \<or> (j = y \<and> x \<le> i \<and> i < x + Suc n))"
      using v1 [OF ji] by auto
    finally show "g' ! j ! i = (g ! j ! i \<or> (j = y \<and> x \<le> i \<and> i < x + Suc n))" .
  qed
  from a b c d show ?case by blast
qed

lemma MarkRows_wf:
  "wf_grid rows cols g \<Longrightarrow> y + n \<le> rows \<Longrightarrow> c + w \<le> cols \<Longrightarrow>
   \<exists>g'. MarkRows g y n c w = Inr g' \<and> wf_grid rows cols g'
     \<and> (\<forall>j < rows. \<forall>i < cols.
           g' ! j ! i = (g ! j ! i \<or> (y \<le> j \<and> j < y + n \<and> c \<le> i \<and> i < c + w)))"
proof (induction n arbitrary: g y)
  case 0
  then show ?case by auto
next
  case (Suc n)
  from Suc.prems have lg: "length g = rows" and rg: "\<And>j. j < rows \<Longrightarrow> length (g ! j) = cols"
    by (simp_all add: wf_grid_def)
  from Suc.prems lg rg have "y < length g" "c + w \<le> length (g ! y)" by simp_all
  from MarkCols_wf [OF this] obtain g1 where g1:
    "MarkCols g y c w = Inr g1" "length g1 = length g"
    "\<forall>j < length g. length (g1 ! j) = length (g ! j)"
    "\<forall>j < length g. \<forall>i < length (g ! j).
        g1 ! j ! i = (g ! j ! i \<or> (j = y \<and> c \<le> i \<and> i < c + w))"
    by blast
  have wf1: "wf_grid rows cols g1"
    unfolding wf_grid_def using g1(2,3) lg rg by (auto simp: in_set_conv_nth)
  from Suc.IH [OF wf1, of "Suc y"] Suc.prems obtain g' where g':
    "MarkRows g1 (Suc y) n c w = Inr g'" "wf_grid rows cols g'"
    "\<forall>j < rows. \<forall>i < cols.
        g' ! j ! i = (g1 ! j ! i \<or> (Suc y \<le> j \<and> j < Suc y + n \<and> c \<le> i \<and> i < c + w))"
    by auto
  have a: "MarkRows g y (Suc n) c w = Inr g'"
    using g1(1) g'(1) by simp
  have d: "\<forall>j < rows. \<forall>i < cols.
        g' ! j ! i = (g ! j ! i \<or> (y \<le> j \<and> j < y + Suc n \<and> c \<le> i \<and> i < c + w))"
  proof (intro allI impI)
    fix j i assume ji: "j < rows" "i < cols"
    then have "g1 ! j ! i = (g ! j ! i \<or> (j = y \<and> c \<le> i \<and> i < c + w))"
      using g1(4) lg rg by simp
    with g'(3) ji show "g' ! j ! i = (g ! j ! i \<or> (y \<le> j \<and> j < y + Suc n \<and> c \<le> i \<and> i < c + w))"
      by auto
  qed
  from a g'(2) d show ?case by blast
qed

lemma Mark_occset:
  assumes "wf_grid rows cols (cells occ)" and "r + h \<le> rows" and "c + w \<le> cols"
  shows "\<exists>occ'. Mark occ r c h w = Inr occ' \<and> wf_grid rows cols (cells occ')
     \<and> occset rows cols (cells occ') = occset rows cols (cells occ) \<union> rect r c h w"
proof -
  from MarkRows_wf [OF assms] obtain g' where g':
    "MarkRows (cells occ) r h c w = Inr g'" "wf_grid rows cols g'"
    "\<forall>j < rows. \<forall>i < cols.
        g' ! j ! i = (cells occ ! j ! i \<or> (r \<le> j \<and> j < r + h \<and> c \<le> i \<and> i < c + w))"
    by blast
  have "occset rows cols g' = occset rows cols (cells occ) \<union> rect r c h w"
    using g'(3) assms(2,3) by (auto simp: occset_def rect_def)
  with g'(1,2) show ?thesis by (simp add: Mark_def)
qed

section \<open>Placements and the invariant of the scan\<close>

lemma covered_append: "covered (ps @ [p]) = covered ps \<union> foot p"
  by (auto simp: covered_def)

lemma covered_Nil: "covered [] = {}"
  by (simp add: covered_def)

lemma finite_rect: "finite (rect r c h w)"
  by (simp add: rect_def)

lemma card_rect: "card (rect r c h w) = h * w"
  by (simp add: rect_def)

lemma finite_covered: "finite (covered ps)"
  by (simp add: covered_def foot_def finite_rect)

lemma occset_iff: "y < rows \<Longrightarrow> x < cols \<Longrightarrow> ((y, x) \<in> occset rows cols g) = g ! y ! x"
  by (simp add: occset_def)

lemma scanInv_skip:
  assumes "scanInv rows cols r c g ps" and "g ! r ! c"
  shows "scanInv rows cols r (Suc c) g ps"
proof -
  have "\<And>y x. before y x r (Suc c) \<Longrightarrow> before y x r c \<or> (y = r \<and> x = c)"
    by (auto simp: before_def)
  with assms show ?thesis
    unfolding scanInv_def by blast
qed

lemma scanInv_next_row:
  assumes "scanInv rows cols r cols g ps"
  shows "scanInv rows cols (Suc r) 0 g ps"
proof -
  have "\<And>y x. x < cols \<Longrightarrow> before y x (Suc r) 0 \<Longrightarrow> before y x r cols"
    by (auto simp: before_def)
  with assms show ?thesis
    unfolding scanInv_def by blast
qed

lemma scanInv_init: "scanInv rows cols 0 0 (replicate rows (replicate cols False)) []"
  by (auto simp: scanInv_def wf_grid_def occset_def covered_def before_def greedy_def)

lemma scanInv_place:
  assumes inv: "scanInv rows cols r c g ps"
    and rc: "r < rows" "c < cols"
    and free: "\<not> g ! r ! c"
    and wf': "wf_grid rows cols g'"
    and occ': "occset rows cols g' = occset rows cols g \<union> foot p"
    and anchor: "pRow p = r" "pCol p = c"
    and ff: "firstFit rows cols (occset rows cols g) p"
    and pos: "0 < pH p" "0 < pW p"
  shows "scanInv rows cols r (Suc c) g' (ps @ [p])"
proof -
  from inv have cov: "occset rows cols g = covered ps"
    and bef: "\<forall>y < rows. \<forall>x < cols. before y x r c \<longrightarrow> g ! y ! x"
    and ar: "sum_list (map area ps) = card (covered ps)"
    and gr: "greedy rows cols ps"
    by (simp_all add: scanInv_def)
  have cov': "occset rows cols g' = covered (ps @ [p])"
    using occ' cov by (simp add: covered_append)
  from ff have fits: "fitsAt rows cols (occset rows cols g) r c (pH p) (pW p)"
    by (auto simp: firstFit_def anchor)
  then have disj: "foot p \<inter> covered ps = {}"
    by (simp add: fitsAt_def foot_def anchor cov)
  have inp: "(r, c) \<in> foot p"
    using pos by (simp add: foot_def rect_def anchor)
  have bef': "\<forall>y < rows. \<forall>x < cols. before y x r (Suc c) \<longrightarrow> g' ! y ! x"
  proof (intro allI impI)
    fix y x assume yx: "y < rows" "x < cols" "before y x r (Suc c)"
    then have "before y x r c \<or> (y = r \<and> x = c)" by (auto simp: before_def)
    then have "(y, x) \<in> occset rows cols g \<union> foot p"
      using bef yx inp by (auto simp: occset_iff)
    then show "g' ! y ! x"
      using occ' yx by (simp add: occset_iff [symmetric])
  qed
  have ar': "sum_list (map area (ps @ [p])) = card (covered (ps @ [p]))"
  proof -
    have "card (covered ps \<union> foot p) = card (covered ps) + card (foot p)"
      using disj by (intro card_Un_disjoint) (auto simp: finite_covered foot_def finite_rect)
    then show ?thesis
      using ar by (simp add: covered_append foot_def card_rect area_def mult.commute)
  qed
  have gr': "greedy rows cols (ps @ [p])"
    unfolding greedy_def
  proof (intro allI impI)
    fix i assume "i < length (ps @ [p])"
    then consider "i < length ps" | "i = length ps" by fastforce
    then show "greedyAt rows cols (covered (take i (ps @ [p]))) ((ps @ [p]) ! i)"
    proof cases
      case 1
      then show ?thesis using gr by (simp add: greedy_def nth_append)
    next
      case 2
      have "greedyAt rows cols (covered ps) p"
        unfolding greedyAt_def
        using rc free bef ff by (auto simp: anchor cov [symmetric] occset_iff)
      with 2 show ?thesis by simp
    qed
  qed
  from wf' cov' bef' ar' gr' show ?thesis by (simp add: scanInv_def)
qed

section \<open>The catalog and the selection loop\<close>

lemma catalog_eq: "catalog = [(2, 2, 1), (1, 2, 2), (2, 1, 3), (1, 1, 0)]"
  by (simp add: catalog_def canvasTypes_def)

lemma canvas_units_pos: "can \<in> set canvasTypes \<Longrightarrow> 0 < UnitsH can \<and> 0 < UnitsW can"
  by (auto simp: canvasTypes_def)

lemma canvas_px: "can \<in> set canvasTypes \<Longrightarrow> PxW can = 16 * UnitsW can \<and> PxH can = 16 * UnitsH can"
  by (auto simp: canvasTypes_def)

lemma rect_unit: "rect r c (Suc 0) (Suc 0) = {(r, c)}"
  by (auto simp: rect_def)

lemma unit_fits:
  "r < rows \<Longrightarrow> c < cols \<Longrightarrow> (r, c) \<notin> O' \<Longrightarrow> fitsAt rows cols O' r c 1 1"
  by (simp add: fitsAt_def rect_unit)

lemma find_canvas_Some:
  assumes "r < rows" and "c < cols" and "(r, c) \<notin> O'"
  shows "\<exists>sel. List.find (\<lambda>can. fitsAt rows cols O' r c (UnitsH can) (UnitsW can)) canvasTypes
            = Some sel"
proof -
  have "fitsAt rows cols O' r c (UnitsH (last canvasTypes)) (UnitsW (last canvasTypes))"
    using unit_fits [OF assms] by (simp add: canvasTypes_def)
  moreover have "last canvasTypes \<in> set canvasTypes"
    by (simp add: canvasTypes_def)
  ultimately have
    "List.find (\<lambda>can. fitsAt rows cols O' r c (UnitsH can) (UnitsW can)) canvasTypes \<noteq> None"
    by (auto simp: find_None_iff)
  then show ?thesis by auto
qed

lemma find_canvas_firstFit:
  assumes "List.find (\<lambda>can. fitsAt rows cols O' r c (UnitsH can) (UnitsW can)) canvasTypes
            = Some sel"
  shows "sel \<in> set canvasTypes \<and>
    firstFit rows cols O' \<lparr>pRow = r, pCol = c, pH = UnitsH sel, pW = UnitsW sel, pCT = CT sel\<rparr>"
proof -
  from assms obtain k where k: "k < length canvasTypes"
    "fitsAt rows cols O' r c (UnitsH (canvasTypes ! k)) (UnitsW (canvasTypes ! k))"
    "sel = canvasTypes ! k"
    "\<forall>j < k. \<not> fitsAt rows cols O' r c (UnitsH (canvasTypes ! j)) (UnitsW (canvasTypes ! j))"
    by (auto simp: find_Some_iff)
  have len: "length catalog = length canvasTypes"
    by (simp add: catalog_def)
  have nth: "\<And>j. j < length canvasTypes \<Longrightarrow>
      catalog ! j = (UnitsH (canvasTypes ! j), UnitsW (canvasTypes ! j), CT (canvasTypes ! j))"
    by (simp add: catalog_def)
  have "firstFit rows cols O' \<lparr>pRow = r, pCol = c, pH = UnitsH sel, pW = UnitsW sel, pCT = CT sel\<rparr>"
    unfolding firstFit_def
  proof (intro exI [of _ k] conjI)
    show "k < length catalog" using k(1) len by simp
    show "catalog ! k =
      (pH \<lparr>pRow = r, pCol = c, pH = UnitsH sel, pW = UnitsW sel, pCT = CT sel\<rparr>,
       pW \<lparr>pRow = r, pCol = c, pH = UnitsH sel, pW = UnitsW sel, pCT = CT sel\<rparr>,
       pCT \<lparr>pRow = r, pCol = c, pH = UnitsH sel, pW = UnitsW sel, pCT = CT sel\<rparr>)"
      using nth [OF k(1)] k(3) by simp
    show "fitsAt rows cols O'
       (pRow \<lparr>pRow = r, pCol = c, pH = UnitsH sel, pW = UnitsW sel, pCT = CT sel\<rparr>)
       (pCol \<lparr>pRow = r, pCol = c, pH = UnitsH sel, pW = UnitsW sel, pCT = CT sel\<rparr>)
       (pH \<lparr>pRow = r, pCol = c, pH = UnitsH sel, pW = UnitsW sel, pCT = CT sel\<rparr>)
       (pW \<lparr>pRow = r, pCol = c, pH = UnitsH sel, pW = UnitsW sel, pCT = CT sel\<rparr>)"
      using k(2,3) by simp
    show "\<forall>j<k. \<not> fitsAt rows cols O'
       (pRow \<lparr>pRow = r, pCol = c, pH = UnitsH sel, pW = UnitsW sel, pCT = CT sel\<rparr>)
       (pCol \<lparr>pRow = r, pCol = c, pH = UnitsH sel, pW = UnitsW sel, pCT = CT sel\<rparr>)
       (fst (catalog ! j)) (fst (snd (catalog ! j)))"
      using k(1,4) nth by simp
  qed
  moreover have "sel \<in> set canvasTypes" using k(1,3) by simp
  ultimately show ?thesis by simp
qed

text \<open>What the body of the column loop does at a cell of the grid.\<close>

lemma planCell_occupied:
  assumes "wf_grid rows cols (cells occ)" and "r < rows" and "c < cols" and "cells occ ! r ! c"
  shows "planCell img rows cols nameRoot rowIndex r c (occ, tiles, ti, has) = Inr (occ, tiles, ti, has)"
proof -
  have "Empty occ r c 1 1 = Inr (rect r c 1 1 \<inter> occset rows cols (cells occ) = {})"
    using assms by (intro Empty_fits) simp_all
  then have "Empty occ r c 1 1 = Inr False"
    using assms by (simp add: rect_unit occset_iff)
  then show ?thesis by (simp add: planCell_def)
qed

lemma planCell_free:
  assumes wf: "wf_grid rows cols (cells occ)" and rc: "r < rows" "c < cols"
    and free: "\<not> cells occ ! r ! c"
  shows "\<exists>occ' sel. planCell img rows cols nameRoot rowIndex r c (occ, tiles, ti, has) =
      Inr (occ',
           tiles @ [\<lparr>Img = crop img (c * 16) (r * 16) (PxW sel) (PxH sel), TileCT = CT sel,
                     FileBase = sprintf_sdd nameRoot rowIndex ti, TileIndex = ti,
                     RowIndex = rowIndex,
                     Placed = \<lparr>pRow = r, pCol = c, pH = UnitsH sel, pW = UnitsW sel,
                               pCT = CT sel\<rparr>\<rparr>],
           ti + 1, True)
    \<and> sel \<in> set canvasTypes
    \<and> wf_grid rows cols (cells occ')
    \<and> occset rows cols (cells occ') =
        occset rows cols (cells occ) \<union> rect r c (UnitsH sel) (UnitsW sel)
    \<and> firstFit rows cols (occset rows cols (cells occ))
        \<lparr>pRow = r, pCol = c, pH = UnitsH sel, pW = UnitsW sel, pCT = CT sel\<rparr>"
proof -
  let ?O = "occset rows cols (cells occ)"
  have "Empty occ r c 1 1 = Inr (rect r c 1 1 \<inter> ?O = {})"
    using wf rc by (intro Empty_fits) simp_all
  then have e: "Empty occ r c 1 1 = Inr True"
    using rc free by (simp add: rect_unit occset_iff)
  have nin: "(r, c) \<notin> ?O" using rc free by (simp add: occset_iff)
  from find_canvas_Some [OF rc nin] obtain sel where
    f: "List.find (\<lambda>can. fitsAt rows cols ?O r c (UnitsH can) (UnitsW can)) canvasTypes = Some sel"
    by blast
  then have s: "selectCanvas occ rows cols r c canvasTypes = Inr (Some sel)"
    by (simp add: selectCanvas_find [OF wf])
  from find_canvas_firstFit [OF f] have mem: "sel \<in> set canvasTypes"
    and ff: "firstFit rows cols ?O
      \<lparr>pRow = r, pCol = c, pH = UnitsH sel, pW = UnitsW sel, pCT = CT sel\<rparr>"
    by simp_all
  from ff have "fitsAt rows cols ?O r c (UnitsH sel) (UnitsW sel)"
    by (auto simp: firstFit_def)
  then have b: "r + UnitsH sel \<le> rows" "c + UnitsW sel \<le> cols"
    by (simp_all add: fitsAt_def)
  from Mark_occset [OF wf b] obtain occ' where m:
    "Mark occ r c (UnitsH sel) (UnitsW sel) = Inr occ'" "wf_grid rows cols (cells occ')"
    "occset rows cols (cells occ') = ?O \<union> rect r c (UnitsH sel) (UnitsW sel)"
    by blast
  have "planCell img rows cols nameRoot rowIndex r c (occ, tiles, ti, has) =
      Inr (occ',
           tiles @ [\<lparr>Img = crop img (c * 16) (r * 16) (PxW sel) (PxH sel), TileCT = CT sel,
                     FileBase = sprintf_sdd nameRoot rowIndex ti, TileIndex = ti,
                     RowIndex = rowIndex,
                     Placed = \<lparr>pRow = r, pCol = c, pH = UnitsH sel, pW = UnitsW sel,
                               pCT = CT sel\<rparr>\<rparr>],
           ti + 1, True)"
    using e s m(1) by (simp add: planCell_def)
  with m(2,3) mem ff show ?thesis by blast
qed

section \<open>Loops\<close>

lemma foldE_upt_total:
  assumes "I a s" and "a \<le> b"
    and step: "\<And>i s. a \<le> i \<Longrightarrow> i < b \<Longrightarrow> I i s \<Longrightarrow> \<exists>s'. f i s = Inr s' \<and> I (Suc i) s'"
  shows "\<exists>s'. foldE f [a..<b] s = Inr s' \<and> I b s'"
  using assms
proof (induction "b - a" arbitrary: a s)
  case 0
  then show ?case by simp
next
  case (Suc n)
  then have lt: "a < b" by simp
  from Suc.prems(3) [of a s] Suc.prems(1) lt obtain s1 where
    s1: "f a s = Inr s1" "I (Suc a) s1" by auto
  have "\<exists>s'. foldE f [Suc a..<b] s1 = Inr s' \<and> I b s'"
  proof (rule Suc.hyps(1))
    show "n = b - Suc a" using Suc.hyps(2) by simp
    show "I (Suc a) s1" by (rule s1(2))
    show "Suc a \<le> b" using lt by simp
    show "\<And>i s. Suc a \<le> i \<Longrightarrow> i < b \<Longrightarrow> I i s \<Longrightarrow> \<exists>s'. f i s = Inr s' \<and> I (Suc i) s'"
      using Suc.prems(3) by simp
  qed
  then show ?case
    using lt s1(1) by (simp add: upt_conv_Cons)
qed

section \<open>The planner keeps its invariant\<close>

lemma planCell_inv:
  assumes inv: "scanInv rows cols r c (cells occ) (map Placed tiles)"
    and rc: "r < rows" "c < cols"
  shows "\<exists>occ' new. planCell img rows cols nameRoot rowIndex r c (occ, tiles, ti, has) =
        Inr (occ', tiles @ new, ti + length new, has \<or> new \<noteq> [])
      \<and> scanInv rows cols r (Suc c) (cells occ') (map Placed (tiles @ new))
      \<and> length new \<le> 1
      \<and> (\<forall>t \<in> set new. tileFrom img nameRoot t \<and> pRow (Placed t) = r
            \<and> TileIndex t = ti \<and> RowIndex t = rowIndex)"
proof (cases "cells occ ! r ! c")
  case True
  from inv have wf: "wf_grid rows cols (cells occ)" by (simp add: scanInv_def)
  have "planCell img rows cols nameRoot rowIndex r c (occ, tiles, ti, has) =
      Inr (occ, tiles @ [], ti + length ([] :: Tile list), has \<or> ([] :: Tile list) \<noteq> [])"
    using planCell_occupied [OF wf rc True] by simp
  moreover have "scanInv rows cols r (Suc c) (cells occ) (map Placed (tiles @ []))"
    using scanInv_skip [OF inv True] by simp
  ultimately show ?thesis by (intro exI [of _ occ] exI [of _ "[]"]) simp
next
  case False
  from inv have wf: "wf_grid rows cols (cells occ)" by (simp add: scanInv_def)
  from planCell_free [OF wf rc False, of img nameRoot rowIndex tiles ti has]
  obtain occ' sel where
    step: "planCell img rows cols nameRoot rowIndex r c (occ, tiles, ti, has) =
      Inr (occ',
           tiles @ [\<lparr>Img = crop img (c * 16) (r * 16) (PxW sel) (PxH sel), TileCT = CT sel,
                     FileBase = sprintf_sdd nameRoot rowIndex ti, TileIndex = ti,
                     RowIndex = rowIndex,
                     Placed = \<lparr>pRow = r, pCol = c, pH = UnitsH sel, pW = UnitsW sel,
                               pCT = CT sel\<rparr>\<rparr>],
           ti + 1, True)"
    and mem: "sel \<in> set canvasTypes"
    and wf': "wf_grid rows cols (cells occ')"
    and occ': "occset rows cols (cells occ') =
        occset rows cols (cells occ) \<union> rect r c (UnitsH sel) (UnitsW sel)"
    and ff: "firstFit rows cols (occset rows cols (cells occ))
        \<lparr>pRow = r, pCol = c, pH = UnitsH sel, pW = UnitsW sel, pCT = CT sel\<rparr>"
    by blast
  let ?p = "\<lparr>pRow = r, pCol = c, pH = UnitsH sel, pW = UnitsW sel, pCT = CT sel\<rparr>"
  let ?t = "\<lparr>Img = crop img (c * 16) (r * 16) (PxW sel) (PxH sel), TileCT = CT sel,
             FileBase = sprintf_sdd nameRoot rowIndex ti, TileIndex = ti,
             RowIndex = rowIndex, Placed = ?p\<rparr>"
  have "scanInv rows cols r (Suc c) (cells occ') (map Placed tiles @ [?p])"
  proof (rule scanInv_place [OF inv rc False wf'])
    show "occset rows cols (cells occ') = occset rows cols (cells occ) \<union> foot ?p"
      using occ' by (simp add: foot_def)
    show "pRow ?p = r" "pCol ?p = c" by simp_all
    show "firstFit rows cols (occset rows cols (cells occ)) ?p" by (rule ff)
    show "0 < pH ?p" "0 < pW ?p" using canvas_units_pos [OF mem] by simp_all
  qed
  then have inv': "scanInv rows cols r (Suc c) (cells occ') (map Placed (tiles @ [?t]))"
    by simp
  have tf: "tileFrom img nameRoot ?t"
    unfolding tileFrom_def using mem by (intro bexI [of _ sel]) simp_all
  have "planCell img rows cols nameRoot rowIndex r c (occ, tiles, ti, has) =
        Inr (occ', tiles @ [?t], ti + length [?t], has \<or> [?t] \<noteq> [])"
    using step by simp
  with inv' tf show ?thesis
    by (intro exI [of _ occ'] exI [of _ "[?t]"]) simp
qed

lemma planRow_inv:
  assumes inv: "scanInv rows cols r 0 (cells occ) (map Placed tiles)" and r: "r < rows"
  shows "\<exists>occ' new. planRow img rows cols nameRoot r (occ, tiles, ri) =
        Inr (occ', tiles @ new, if new = [] then ri else ri + 1)
      \<and> scanInv rows cols (Suc r) 0 (cells occ') (map Placed (tiles @ new))
      \<and> (\<forall>k < length new. tileFrom img nameRoot (new ! k) \<and> pRow (Placed (new ! k)) = r
            \<and> TileIndex (new ! k) = k \<and> RowIndex (new ! k) = ri)"
proof -
  define J where "J = (\<lambda>c (st :: colState).
    \<exists>occ' new. st = (occ', tiles @ new, length new, new \<noteq> [])
      \<and> scanInv rows cols r c (cells occ') (map Placed (tiles @ new))
      \<and> (\<forall>k < length new. tileFrom img nameRoot (new ! k) \<and> pRow (Placed (new ! k)) = r
            \<and> TileIndex (new ! k) = k \<and> RowIndex (new ! k) = ri))"
  have init: "J 0 (occ, tiles, 0, False)"
    unfolding J_def using inv by (intro exI [of _ occ] exI [of _ "[]"]) simp
  have step: "\<exists>s'. planCell img rows cols nameRoot ri r c st = Inr s' \<and> J (Suc c) s'"
    if "c < cols" and "J c st" for c st
  proof -
    from that(2) obtain occ1 new where
      st: "st = (occ1, tiles @ new, length new, new \<noteq> [])"
      and inv1: "scanInv rows cols r c (cells occ1) (map Placed (tiles @ new))"
      and ix: "\<forall>k < length new. tileFrom img nameRoot (new ! k) \<and> pRow (Placed (new ! k)) = r
            \<and> TileIndex (new ! k) = k \<and> RowIndex (new ! k) = ri"
      unfolding J_def by blast
    from planCell_inv [OF inv1 r that(1), of img nameRoot ri "length new" "new \<noteq> []"]
    obtain occ2 add where
      pc: "planCell img rows cols nameRoot ri r c (occ1, tiles @ new, length new, new \<noteq> []) =
        Inr (occ2, (tiles @ new) @ add, length new + length add, new \<noteq> [] \<or> add \<noteq> [])"
      and inv2: "scanInv rows cols r (Suc c) (cells occ2) (map Placed ((tiles @ new) @ add))"
      and ad: "\<forall>t \<in> set add. tileFrom img nameRoot t \<and> pRow (Placed t) = r
            \<and> TileIndex t = length new \<and> RowIndex t = ri"
      and le: "length add \<le> 1"
      by blast
    have ix': "\<forall>k < length (new @ add). tileFrom img nameRoot ((new @ add) ! k)
          \<and> pRow (Placed ((new @ add) ! k)) = r
          \<and> TileIndex ((new @ add) ! k) = k \<and> RowIndex ((new @ add) ! k) = ri"
    proof (intro allI impI)
      fix k assume k: "k < length (new @ add)"
      show "tileFrom img nameRoot ((new @ add) ! k) \<and> pRow (Placed ((new @ add) ! k)) = r
          \<and> TileIndex ((new @ add) ! k) = k \<and> RowIndex ((new @ add) ! k) = ri"
      proof (cases "k < length new")
        case True
        then show ?thesis using ix by (simp add: nth_append)
      next
        case False
        with k le have k0: "k = length new" and pos: "0 < length add" by auto
        from pos have "add ! 0 \<in> set add" by (rule nth_mem)
        with ad k0 show ?thesis by (simp add: nth_append)
      qed
    qed
    have "J (Suc c) (occ2, tiles @ (new @ add), length (new @ add), (new @ add) \<noteq> [])"
      unfolding J_def using inv2 ix'
      by (intro exI [of _ occ2] exI [of _ "new @ add"]) simp
    with pc st show ?thesis by simp
  qed
  from foldE_upt_total [of J 0 "(occ, tiles, 0, False)" cols
      "planCell img rows cols nameRoot ri r", OF init] step
  obtain s' where s': "foldE (planCell img rows cols nameRoot ri r) [0..<cols]
      (occ, tiles, 0, False) = Inr s'" "J cols s'"
    by auto
  from s'(2) obtain occ' new where
    st: "s' = (occ', tiles @ new, length new, new \<noteq> [])"
    and inv': "scanInv rows cols r cols (cells occ') (map Placed (tiles @ new))"
    and ix: "\<forall>k < length new. tileFrom img nameRoot (new ! k) \<and> pRow (Placed (new ! k)) = r
          \<and> TileIndex (new ! k) = k \<and> RowIndex (new ! k) = ri"
    unfolding J_def by blast
  have "planRow img rows cols nameRoot r (occ, tiles, ri) =
      Inr (occ', tiles @ new, if new = [] then ri else ri + 1)"
    using s'(1) st by (simp add: planRow_def)
  with scanInv_next_row [OF inv'] ix show ?thesis by blast
qed

lemma indexed_snoc:
  assumes "indexed groups"
    and "\<forall>k < length new. pRow (Placed (new ! k)) = length groups \<and> TileIndex (new ! k) = k
          \<and> RowIndex (new ! k) = length (filter (\<lambda>g. g \<noteq> []) groups)"
  shows "indexed (groups @ [new])"
  unfolding indexed_def
proof (intro allI impI)
  fix r k assume r: "r < length (groups @ [new])" and k: "k < length ((groups @ [new]) ! r)"
  show "pRow (Placed ((groups @ [new]) ! r ! k)) = r
      \<and> TileIndex ((groups @ [new]) ! r ! k) = k
      \<and> RowIndex ((groups @ [new]) ! r ! k) =
          length (filter (\<lambda>g. g \<noteq> []) (take r (groups @ [new])))"
  proof (cases "r < length groups")
    case True
    with k assms(1) show ?thesis by (simp add: indexed_def nth_append)
  next
    case False
    with r have "r = length groups" by simp
    with k assms(2) show ?thesis by (simp add: nth_append)
  qed
qed

lemma planRows_inv:
  "\<exists>occ groups ri. planRows img rows cols nameRoot = Inr (occ, concat groups, ri)
      \<and> scanInv rows cols rows 0 (cells occ) (map Placed (concat groups))
      \<and> length groups = rows \<and> indexed groups
      \<and> (\<forall>t \<in> set (concat groups). tileFrom img nameRoot t)"
proof -
  define K where "K = (\<lambda>r (st :: rowState).
    \<exists>occ groups. st = (occ, concat groups, length (filter (\<lambda>g. g \<noteq> []) groups))
      \<and> scanInv rows cols r 0 (cells occ) (map Placed (concat groups))
      \<and> length groups = r \<and> indexed groups
      \<and> (\<forall>t \<in> set (concat groups). tileFrom img nameRoot t))"
  have init: "K 0 (NewOccGrid rows cols, [], 0)"
    unfolding K_def using scanInv_init [of rows cols]
    by (intro exI [of _ "NewOccGrid rows cols"] exI [of _ "[]"])
      (simp add: NewOccGrid_def indexed_def)
  have step: "\<exists>s'. planRow img rows cols nameRoot r st = Inr s' \<and> K (Suc r) s'"
    if "r < rows" and "K r st" for r st
  proof -
    from that(2) obtain occ groups where
      st: "st = (occ, concat groups, length (filter (\<lambda>g. g \<noteq> []) groups))"
      and inv: "scanInv rows cols r 0 (cells occ) (map Placed (concat groups))"
      and len: "length groups = r" and ix: "indexed groups"
      and tf: "\<forall>t \<in> set (concat groups). tileFrom img nameRoot t"
      unfolding K_def by blast
    let ?ri = "length (filter (\<lambda>g. g \<noteq> []) groups)"
    from planRow_inv [OF inv that(1), of img nameRoot ?ri]
    obtain occ' new where
      pr: "planRow img rows cols nameRoot r (occ, concat groups, ?ri) =
        Inr (occ', concat groups @ new, if new = [] then ?ri else ?ri + 1)"
      and inv': "scanInv rows cols (Suc r) 0 (cells occ') (map Placed (concat groups @ new))"
      and nw: "\<forall>k < length new. tileFrom img nameRoot (new ! k) \<and> pRow (Placed (new ! k)) = r
            \<and> TileIndex (new ! k) = k \<and> RowIndex (new ! k) = ?ri"
      by blast
    have ix': "indexed (groups @ [new])"
      using ix nw len by (intro indexed_snoc) simp_all
    have tf': "\<forall>t \<in> set (concat (groups @ [new])). tileFrom img nameRoot t"
      using tf nw by (auto simp: in_set_conv_nth)
    have "K (Suc r) (occ', concat (groups @ [new]),
        length (filter (\<lambda>g. g \<noteq> []) (groups @ [new])))"
      unfolding K_def using inv' len ix' tf'
      by (intro exI [of _ occ'] exI [of _ "groups @ [new]"]) simp
    moreover have "planRow img rows cols nameRoot r st =
        Inr (occ', concat (groups @ [new]), length (filter (\<lambda>g. g \<noteq> []) (groups @ [new])))"
      using pr st by simp
    ultimately show ?thesis by simp
  qed
  from foldE_upt_total [of K 0 "(NewOccGrid rows cols, [], 0)" rows
      "planRow img rows cols nameRoot", OF init] step
  obtain s' where s': "foldE (planRow img rows cols nameRoot) [0..<rows]
      (NewOccGrid rows cols, [], 0) = Inr s'" "K rows s'"
    by auto
  then show ?thesis
    unfolding K_def planRows_def by blast
qed

section \<open>From the invariant to the tiling\<close>

lemma greedy_disjoint:
  assumes "greedy rows cols ps" and "i < j" and "j < length ps"
  shows "foot (ps ! i) \<inter> foot (ps ! j) = {}"
proof -
  from assms have "greedyAt rows cols (covered (take j ps)) (ps ! j)"
    by (simp add: greedy_def)
  then have "foot (ps ! j) \<inter> covered (take j ps) = {}"
    by (auto simp: greedyAt_def firstFit_def fitsAt_def foot_def)
  moreover have "ps ! i \<in> set (take j ps)"
    using assms by (auto simp: in_set_conv_nth intro!: exI [of _ i])
  then have "foot (ps ! i) \<subseteq> covered (take j ps)"
    by (auto simp: covered_def)
  ultimately show ?thesis by blast
qed

lemma scanInv_final:
  assumes "scanInv rows cols rows 0 g ps"
  shows "tiling rows cols ps"
proof -
  from assms have cov: "occset rows cols g = covered ps"
    and bef: "\<forall>y < rows. \<forall>x < cols. before y x rows 0 \<longrightarrow> g ! y ! x"
    and ar: "sum_list (map area ps) = card (covered ps)"
    and gr: "greedy rows cols ps"
    by (simp_all add: scanInv_def)
  have all: "covered ps = {0..<rows} \<times> {0..<cols}"
  proof -
    have "occset rows cols g = {0..<rows} \<times> {0..<cols}"
      using bef by (auto simp: occset_def before_def)
    with cov show ?thesis by simp
  qed
  have ex1: "\<exists>!i. i < length ps \<and> (y, x) \<in> foot (ps ! i)" if "y < rows" "x < cols" for y x
  proof -
    from that all have "(y, x) \<in> covered ps" by simp
    then obtain i where i: "i < length ps" "(y, x) \<in> foot (ps ! i)"
      by (auto simp: covered_def in_set_conv_nth)
    have "j = i" if j: "j < length ps" "(y, x) \<in> foot (ps ! j)" for j
    proof (rule ccontr)
      assume "j \<noteq> i"
      then consider "i < j" | "j < i" by linarith
      then show False
      proof cases
        case 1
        from greedy_disjoint [OF gr 1 j(1)] i(2) j(2) show False by blast
      next
        case 2
        from greedy_disjoint [OF gr 2 i(1)] i(2) j(2) show False by blast
      qed
    qed
    with i show ?thesis by blast
  qed
  have "sum_list (map area ps) = rows * cols"
    using ar all by simp
  with ex1 show ?thesis by (simp add: tiling_def)
qed

text \<open>\<open>MakeTilePlan\<close> always returns a plan, and the plan is a greedy exact tiling.\<close>

lemma MakeTilePlan_sound:
  "\<exists>groups. MakeTilePlan img rows cols nameRoot = Inr (concat groups)
      \<and> tiling rows cols (map Placed (concat groups))
      \<and> greedy rows cols (map Placed (concat groups))
      \<and> length groups = rows \<and> indexed groups
      \<and> (\<forall>t \<in> set (concat groups). tileFrom img nameRoot t)"
proof -
  from planRows_inv [of img rows cols nameRoot] obtain occ groups ri where
    pr: "planRows img rows cols nameRoot = Inr (occ, concat groups, ri)"
    and inv: "scanInv rows cols rows 0 (cells occ) (map Placed (concat groups))"
    and rest: "length groups = rows" "indexed groups"
      "\<forall>t \<in> set (concat groups). tileFrom img nameRoot t"
    by blast
  have "MakeTilePlan img rows cols nameRoot = Inr (concat groups)"
    using pr by (simp add: MakeTilePlan_def)
  moreover have "greedy rows cols (map Placed (concat groups))"
    using inv by (simp add: scanInv_def)
  ultimately show ?thesis
    using scanInv_final [OF inv] rest by blast
qed

section \<open>Pixel arrays\<close>

lemma ff32: "(0xFF :: 32 word) = mask 8"
  by (simp add: mask_eq_exp_minus_1)

lemma ff64: "(0xFF :: 64 word) = mask 8"
  by (simp add: mask_eq_exp_minus_1)

lemma ff8: "(0xFF :: byte) = mask 8"
  by (simp add: mask_eq_exp_minus_1)

lemma packPixel_main_eq: "packPixel_main p = packPixel p"
proof -
  obtain r g b a where p: "p = (r, g, b, a)" by (cases p) auto
  show ?thesis
    unfolding p packPixel_main_def packPixel_def Let_def prod.case ff32 ff64
    by (rule bit_word_eqI) (auto simp: bit_simps)
qed

lemma bytesOf_packPixel: "bytesOf (packPixel (r, g, b, a)) = (0xFF, hi8 r, hi8 g, hi8 b)"
proof -
  have b3: "ucast (drop_bit 24 (packPixel (r, g, b, a))) = (0xFF :: byte)"
    unfolding packPixel_def prod.case ff32 ff8
    by (rule bit_word_eqI) (auto simp: bit_simps)
  have b2: "ucast (drop_bit 16 (packPixel (r, g, b, a))) = hi8 r"
    unfolding packPixel_def prod.case hi8_def ff32
    by (rule bit_word_eqI) (auto simp: bit_simps)
  have b1: "ucast (drop_bit 8 (packPixel (r, g, b, a))) = hi8 g"
    unfolding packPixel_def prod.case hi8_def ff32
    by (rule bit_word_eqI) (auto simp: bit_simps)
  have b0: "ucast (packPixel (r, g, b, a)) = hi8 b"
    unfolding packPixel_def prod.case hi8_def ff32
    by (rule bit_word_eqI) (auto simp: bit_simps)
  from b3 b2 b1 b0 show ?thesis by (simp add: bytesOf_def)
qed

lemma hi8_widen8: "hi8 (widen8 ch) = hi8 ch"
  unfolding hi8_def widen8_def Let_def
  by (rule bit_word_eqI) (auto simp: bit_simps)


lemma rowMajor_index:
  assumes "x < (w :: nat)"
  shows "(y * w + x) mod w = x \<and> (y * w + x) div w = y"
  using assms by simp

lemma pixelRow_inv:
  assumes len: "length pixels = w * h" and y: "y < h"
    and done': "\<forall>k < y * w. pixels ! k = packPixel (ColorAt img (k mod w) (k div w))"
  shows "\<exists>pixels'. pixelRow img w y (pixels, y * w) = Inr (pixels', Suc y * w)
      \<and> length pixels' = w * h
      \<and> (\<forall>k < Suc y * w. pixels' ! k = packPixel (ColorAt img (k mod w) (k div w)))"
proof -
  define I where "I = (\<lambda>x (st :: 32 word list \<times> nat).
    snd st = y * w + x \<and> length (fst st) = w * h
    \<and> (\<forall>k < y * w + x. fst st ! k = packPixel (ColorAt img (k mod w) (k div w))))"
  have init: "I 0 (pixels, y * w)"
    using len done' by (simp add: I_def)
  have step: "\<exists>s'. pixelStep img y x st = Inr s' \<and> I (Suc x) s'" if "x < w" and "I x st" for x st
  proof -
    obtain px idx where st: "st = (px, idx)" by (cases st) auto
    from that(2) st have idx: "idx = y * w + x" and l: "length px = w * h"
      and d: "\<forall>k < y * w + x. px ! k = packPixel (ColorAt img (k mod w) (k div w))"
      by (simp_all add: I_def)
    have "y * w + x < Suc y * w" using that(1) by simp
    also have "\<dots> \<le> h * w" using y by (intro mult_le_mono1) simp
    finally have inr: "idx < length px" using idx l by (simp add: mult.commute)
    let ?px = "px[idx := packPixel (ColorAt img x y)]"
    have "I (Suc x) (?px, idx + 1)"
      unfolding I_def
    proof (intro conjI allI impI)
      show "snd (?px, idx + 1) = y * w + Suc x" using idx by simp
      show "length (fst (?px, idx + 1)) = w * h" using l by simp
      fix k assume "k < y * w + Suc x"
      then consider "k < idx" | "k = idx" using idx by fastforce
      then show "fst (?px, idx + 1) ! k = packPixel (ColorAt img (k mod w) (k div w))"
      proof cases
        case 1
        with d idx show ?thesis by simp
      next
        case 2
        with inr idx rowMajor_index [OF that(1), of y] show ?thesis by simp
      qed
    qed
    moreover have "pixelStep img y x st = Inr (?px, idx + 1)"
      using inr by (simp add: pixelStep_def st)
    ultimately show ?thesis by blast
  qed
  from foldE_upt_total [of I 0 "(pixels, y * w)" w "pixelStep img y", OF init] step
  obtain s' where s': "foldE (pixelStep img y) [0..<w] (pixels, y * w) = Inr s'" "I w s'"
    by auto
  obtain px idx where st: "s' = (px, idx)" by (cases s') auto
  from s' st show ?thesis
    by (auto simp: pixelRow_def I_def add.commute)
qed

lemma buildPixels_rowMajor: "buildPixels img = Inr (rowMajor img (Dx img) (Dy img))"
proof -
  let ?w = "Dx img" and ?h = "Dy img"
  define K where "K = (\<lambda>y (st :: 32 word list \<times> nat).
    snd st = y * ?w \<and> length (fst st) = ?w * ?h
    \<and> (\<forall>k < y * ?w. fst st ! k = packPixel (ColorAt img (k mod ?w) (k div ?w))))"
  have init: "K 0 (replicate (?w * ?h) 0, 0)"
    by (simp add: K_def)
  have step: "\<exists>s'. pixelRow img ?w y st = Inr s' \<and> K (Suc y) s'" if "y < ?h" and "K y st" for y st
  proof -
    obtain px idx where st: "st = (px, idx)" by (cases st) auto
    from that(2) st have idx: "idx = y * ?w" and l: "length px = ?w * ?h"
      and d: "\<forall>k < y * ?w. px ! k = packPixel (ColorAt img (k mod ?w) (k div ?w))"
      by (simp_all add: K_def)
    from pixelRow_inv [OF l that(1) d] st idx show ?thesis
      by (auto simp: K_def)
  qed
  from foldE_upt_total [of K 0 "(replicate (?w * ?h) 0, 0)" ?h "pixelRow img ?w", OF init] step
  obtain s' where s': "foldE (pixelRow img ?w) [0..<?h] (replicate (?w * ?h) 0, 0) = Inr s'"
    "K ?h s'"
    by auto
  obtain px idx where st: "s' = (px, idx)" by (cases s') auto
  from s'(2) st have l: "length px = ?w * ?h"
    and d: "\<forall>k < ?h * ?w. px ! k = packPixel (ColorAt img (k mod ?w) (k div ?w))"
    by (simp_all add: K_def)
  have "px = rowMajor img ?w ?h"
    using l d by (intro nth_equalityI) (simp_all add: rowMajor_def mult.commute)
  with s'(1) st show ?thesis by (simp add: buildPixels_def Let_def)
qed

lemma pixelRow_main_inv:
  assumes len: "length pixels = w * h" and y: "y < h"
    and done': "\<forall>k < y * w. pixels ! k = packPixel (ColorAt sub (k mod w) (k div w))"
  shows "\<exists>pixels'. pixelRow_main sub w y pixels = Inr pixels'
      \<and> length pixels' = w * h
      \<and> (\<forall>k < Suc y * w. pixels' ! k = packPixel (ColorAt sub (k mod w) (k div w)))"
proof -
  define I where "I = (\<lambda>x (px :: 32 word list).
    length px = w * h
    \<and> (\<forall>k < y * w + x. px ! k = packPixel (ColorAt sub (k mod w) (k div w))))"
  have init: "I 0 pixels"
    using len done' by (simp add: I_def)
  have step: "\<exists>s'. pixelStep_main sub w y x px = Inr s' \<and> I (Suc x) s'"
    if "x < w" and "I x px" for x px
  proof -
    from that(2) have l: "length px = w * h"
      and d: "\<forall>k < y * w + x. px ! k = packPixel (ColorAt sub (k mod w) (k div w))"
      by (simp_all add: I_def)
    have "y * w + x < Suc y * w" using that(1) by simp
    also have "\<dots> \<le> h * w" using y by (intro mult_le_mono1) simp
    finally have inr: "y * w + x < length px" using l by (simp add: mult.commute)
    let ?px = "px[y * w + x := packPixel (ColorAt sub x y)]"
    have "I (Suc x) ?px"
      unfolding I_def
    proof (intro conjI allI impI)
      show "length ?px = w * h" using l by simp
      fix k assume "k < y * w + Suc x"
      then consider "k < y * w + x" | "k = y * w + x" by fastforce
      then show "?px ! k = packPixel (ColorAt sub (k mod w) (k div w))"
      proof cases
        case 1
        with d show ?thesis by simp
      next
        case 2
        with inr rowMajor_index [OF that(1), of y] show ?thesis by simp
      qed
    qed
    moreover have "pixelStep_main sub w y x px = Inr ?px"
      using inr by (simp add: pixelStep_main_def packPixel_main_eq)
    ultimately show ?thesis by blast
  qed
  from foldE_upt_total [of I 0 pixels w "pixelStep_main sub w y", OF init] step
  obtain s' where s': "foldE (pixelStep_main sub w y) [0..<w] pixels = Inr s'" "I w s'"
    by auto
  then show ?thesis
    by (auto simp: pixelRow_main_def I_def add.commute)
qed

lemma buildPixels_main_rowMajor: "buildPixels_main sub w h = Inr (rowMajor sub w h)"
proof -
  define K where "K = (\<lambda>y (px :: 32 word list).
    length px = w * h
    \<and> (\<forall>k < y * w. px ! k = packPixel (ColorAt sub (k mod w) (k div w))))"
  have init: "K 0 (replicate (w * h) 0)"
    by (simp add: K_def)
  have step: "\<exists>s'. pixelRow_main sub w y px = Inr s' \<and> K (Suc y) s'"
    if "y < h" and "K y px" for y px
  proof -
    from that(2) have l: "length px = w * h"
      and d: "\<forall>k < y * w. px ! k = packPixel (ColorAt sub (k mod w) (k div w))"
      by (simp_all add: K_def)
    from pixelRow_main_inv [OF l that(1) d] show ?thesis
      by (auto simp: K_def)
  qed
  from foldE_upt_total [of K 0 "replicate (w * h) 0" h "pixelRow_main sub w", OF init] step
  obtain px where px: "foldE (pixelRow_main sub w) [0..<h] (replicate (w * h) 0) = Inr px"
    "K h px"
    by auto
  from px(2) have l: "length px = w * h"
    and d: "\<forall>k < h * w. px ! k = packPixel (ColorAt sub (k mod w) (k div w))"
    by (simp_all add: K_def)
  have "px = rowMajor sub w h"
    using l d by (intro nth_equalityI) (simp_all add: rowMajor_def mult.commute)
  with px(1) show ?thesis by (simp add: buildPixels_main_def)
qed

lemmas eval_main = main_def mainRow_def mainCell_def upt_rec canvasTypes_main_def
  numeral_2_eq_2 numeral_3_eq_3 Let_def buildPixels_main_rowMajor

section \<open>The loop of main.go follows the planner\<close>

lemma hitCols_EmptyCols:
  "hitCols g y x n = (case EmptyCols g y x n of Inl e \<Rightarrow> Inl e | Inr b \<Rightarrow> Inr (\<not> b))"
  by (induction n arbitrary: x) simp_all

lemma hitRows_EmptyRows:
  "hitRows g y n c w = (case EmptyRows g y n c w of Inl e \<Rightarrow> Inl e | Inr b \<Rightarrow> Inr (\<not> b))"
  by (induction n arbitrary: y) (simp_all add: hitCols_EmptyCols split: sum.splits bool.splits)

lemma selectMain_selectCanvas:
  assumes "\<forall>can \<in> set cans. PxW can div 16 = UnitsW can \<and> PxH can div 16 = UnitsH can"
  shows "selectMain (cells occ) rows cols r c (map (\<lambda>can. (PxW can, PxH can, CT can)) cans) =
    (case selectCanvas occ rows cols r c cans of
       Inl e \<Rightarrow> Inl e | Inr s \<Rightarrow> Inr (map_option selOf s))"
  using assms
proof (induction cans)
  case Nil
  show ?case by simp
next
  case (Cons can cans)
  then show ?case
    by (simp add: Empty_def hitRows_EmptyRows selOf_def Let_def split: sum.splits bool.splits)
qed

lemma canvasTypes_main_eq:
  "canvasTypes_main = map (\<lambda>can. (PxW can, PxH can, CT can)) canvasTypes"
  by (simp add: canvasTypes_main_def canvasTypes_def)

lemma selectMain_eq:
  "selectMain (cells occ) rows cols r c canvasTypes_main =
    (case selectCanvas occ rows cols r c canvasTypes of
       Inl e \<Rightarrow> Inl e | Inr s \<Rightarrow> Inr (map_option selOf s))"
  unfolding canvasTypes_main_eq
  by (rule selectMain_selectCanvas) (simp add: canvasTypes_def)

lemma selectCanvas_mem:
  "selectCanvas occ rows cols r c cans = Inr (Some sel) \<Longrightarrow> sel \<in> set cans"
  by (induction cans) (auto split: if_splits sum.splits bool.splits)

lemma Empty_unit:
  "Empty occ r c (Suc 0) (Suc 0) =
    (if r < length (cells occ) \<and> c < length (cells occ ! r)
     then Inr (\<not> cells occ ! r ! c) else Inl IndexOutOfRange)"
  by (simp add: Empty_def)

lemma writeQuiet_append: "writeQuiet env d n x log = log @ writeQuiet env d n x []"
  by (simp add: writeQuiet_def)

lemma Mark_cells: "Mark occ r c h w = Inr occ' \<Longrightarrow> MarkRows (cells occ) r h c w = Inr (cells occ')"
  by (auto simp: Mark_def split: sum.splits)

lemma mainCell_follows:
  assumes step: "inStep env cfg img occ tiles m"
    and pc: "planCell img rows cols nameRoot ri r c (occ, tiles, ti, has) = Inr (occ', tiles', ti', has')"
  shows "\<exists>m'. mainCell env cfg img rows cols r c m = Inr m' \<and> inStep env cfg img occ' tiles' m'"
proof -
  obtain g counter log done' where m: "m = (g, counter, log, done')"
    by (cases m) auto
  from step m have g: "g = cells occ" and pl: "map xPlaced done' = map Placed tiles"
    and cn: "counter = of_nat (length done')"
    and ef: "\<forall>i < length done'. exportedFrom cfg img i (done' ! i)"
    and lg: "log = concat (map (filesOf_main env cfg) done')"
    by (simp_all add: inStep_def)
  from pc have inr: "r < length (cells occ) \<and> c < length (cells occ ! r)"
    by (auto simp: planCell_def Empty_unit split: if_splits)
  show ?thesis
  proof (cases "cells occ ! r ! c")
    case True
    with pc inr have "occ' = occ" "tiles' = tiles"
      by (simp_all add: planCell_def Empty_unit)
    moreover have "mainCell env cfg img rows cols r c m = Inr m"
      using True inr by (simp add: mainCell_def m g)
    ultimately show ?thesis using step by simp
  next
    case False
    with pc inr obtain sel where
      sc: "selectCanvas occ rows cols r c canvasTypes = Inr (Some sel)"
      and mk: "Mark occ r c (UnitsH sel) (UnitsW sel) = Inr occ'"
      and tl: "tiles' = tiles @
          [\<lparr>Img = crop img (c * 16) (r * 16) (PxW sel) (PxH sel), TileCT = CT sel,
            FileBase = sprintf_sdd nameRoot ri ti, TileIndex = ti, RowIndex = ri,
            Placed = \<lparr>pRow = r, pCol = c, pH = UnitsH sel, pW = UnitsW sel, pCT = CT sel\<rparr>\<rparr>]"
      by (auto simp: planCell_def Empty_unit split: sum.splits option.splits)
    have mem: "sel \<in> set canvasTypes" by (rule selectCanvas_mem [OF sc])
    have sm: "selectMain (cells occ) rows cols r c canvasTypes_main = Inr (Some (selOf sel))"
      using sc by (simp add: selectMain_eq)
    have mr: "MarkRows (cells occ) r (hUnits (selOf sel)) c (wUnits (selOf sel)) = Inr (cells occ')"
      using Mark_cells [OF mk] by (simp add: selOf_def)
    let ?sub = "crop img (c * 16) (r * 16) (PxW sel) (PxH sel)"
    let ?d = "\<lparr>Generation = 1, nbtCT = CT sel,
               Pixels = rowMajor ?sub (PxW sel) (PxH sel), V = 2,
               nbtAuthor = Author cfg, nbtTitle = Title cfg,
               Name = sprintf_sd paintingUUID (sint (BaseID cfg + of_nat (length done')))\<rparr>"
    let ?e = "\<lparr>nameBase = sprintf_sdd (trimExt (Base (InputPath cfg))) c r, subImg = ?sub,
               nbtData = ?d,
               xPlaced = \<lparr>pRow = r, pCol = c, pH = UnitsH sel, pW = UnitsW sel, pCT = CT sel\<rparr>\<rparr>"
    let ?m' = "(cells occ', counter + 1, log @ filesOf_main env cfg ?e, done' @ [?e])"
    have mc: "mainCell env cfg img rows cols r c m = Inr ?m'"
      using False inr sm mr
      by (simp add: mainCell_def m g cn Let_def selOf_def filesOf_main_def
          buildPixels_main_rowMajor
          writeQuiet_append [of _ _ _ _ "writeQuiet _ _ _ _ _"] writeQuiet_append [of _ _ _ _ log])
    have e: "exportedFrom cfg img (length done') ?e"
      unfolding exportedFrom_def using mem by (intro bexI [of _ sel]) simp_all
    have ef': "\<forall>i < length (done' @ [?e]). exportedFrom cfg img i ((done' @ [?e]) ! i)"
      using ef e by (auto simp: nth_append less_Suc_eq)
    have "inStep env cfg img occ' tiles' ?m'"
      using pl cn ef' lg tl by (simp add: inStep_def)
    with mc show ?thesis by blast
  qed
qed

lemma foldE_follows:
  assumes step: "\<And>x s m s'. R s m \<Longrightarrow> f x s = Inr s' \<Longrightarrow> \<exists>m'. g x m = Inr m' \<and> R s' m'"
  shows "R s m \<Longrightarrow> foldE f xs s = Inr s' \<Longrightarrow> \<exists>m'. foldE g xs m = Inr m' \<and> R s' m'"
proof (induction xs arbitrary: s m)
  case Nil
  then show ?case by simp
next
  case (Cons x xs)
  from Cons.prems(2) obtain s1 where s1: "f x s = Inr s1" "foldE f xs s1 = Inr s'"
    by (auto split: sum.splits)
  from step [OF Cons.prems(1) s1(1)] obtain m1 where m1: "g x m = Inr m1" "R s1 m1"
    by blast
  from Cons.IH [OF m1(2) s1(2)] obtain m' where "foldE g xs m1 = Inr m'" "R s' m'"
    by blast
  with m1(1) show ?case by simp
qed

lemma mainRow_follows:
  assumes step: "inStep env cfg img occ tiles m"
    and pr: "planRow img rows cols nameRoot r (occ, tiles, ri) = Inr (occ', tiles', ri')"
  shows "\<exists>m'. mainRow env cfg img rows cols r m = Inr m' \<and> inStep env cfg img occ' tiles' m'"
proof -
  from pr obtain ti has where
    fe: "foldE (planCell img rows cols nameRoot ri r) [0..<cols] (occ, tiles, 0, False) =
      Inr (occ', tiles', ti, has)"
    by (auto simp: planRow_def split: sum.splits)
  define R where "R = (\<lambda>(s :: colState) m. inStep env cfg img (fst s) (fst (snd s)) m)"
  have st: "\<exists>m'. mainCell env cfg img rows cols r x m = Inr m' \<and> R s' m'"
    if "R s m" and "planCell img rows cols nameRoot ri r x s = Inr s'" for x s m s'
  proof -
    obtain o1 t1 i1 h1 where s: "s = (o1, t1, i1, h1)" by (cases s) auto
    obtain o2 t2 i2 h2 where s': "s' = (o2, t2, i2, h2)" by (cases s') auto
    from mainCell_follows [of env cfg img o1 t1 m rows cols nameRoot ri r x i1 h1 o2 t2 i2 h2]
      that s s'
    show ?thesis by (simp add: R_def)
  qed
  have "R (occ, tiles, 0, False) m" using step by (simp add: R_def)
  from foldE_follows [of R "planCell img rows cols nameRoot ri r"
      "mainCell env cfg img rows cols r", OF st this fe]
  show ?thesis by (simp add: mainRow_def R_def)
qed

lemma main_follows:
  assumes dims: "Dx img mod 16 = 0" "Dy img mod 16 = 0" and mk: "canMkdir env (OutDir cfg)"
    and plan: "MakeTilePlan img (Dy img div 16) (Dx img div 16) nameRoot = Inr tiles"
  shows "\<exists>log done'. main env cfg img = Inr (log, done')
      \<and> map xPlaced done' = map Placed tiles
      \<and> (\<forall>i < length done'. exportedFrom cfg img i (done' ! i))
      \<and> log = concat (map (filesOf_main env cfg) done')"
proof -
  let ?rows = "Dy img div 16" and ?cols = "Dx img div 16"
  from plan obtain occ ri where
    fe: "foldE (planRow img ?rows ?cols nameRoot) [0..<?rows] (NewOccGrid ?rows ?cols, [], 0) =
      Inr (occ, tiles, ri)"
    by (auto simp: MakeTilePlan_def planRows_def split: sum.splits)
  define R where "R = (\<lambda>(s :: rowState) m. inStep env cfg img (fst s) (fst (snd s)) m)"
  have st: "\<exists>m'. mainRow env cfg img ?rows ?cols x m = Inr m' \<and> R s' m'"
    if "R s m" and "planRow img ?rows ?cols nameRoot x s = Inr s'" for x s m s'
  proof -
    obtain o1 t1 i1 where s: "s = (o1, t1, i1)" by (cases s) auto
    obtain o2 t2 i2 where s': "s' = (o2, t2, i2)" by (cases s') auto
    from mainRow_follows [of env cfg img o1 t1 m ?rows ?cols nameRoot x i1 o2 t2 i2] that s s'
    show ?thesis by (simp add: R_def)
  qed
  have r0: "R (NewOccGrid ?rows ?cols, [], 0) (replicate ?rows (replicate ?cols False), 0, [], [])"
    by (simp add: R_def inStep_def NewOccGrid_def)
  have "\<exists>m'. foldE (mainRow env cfg img ?rows ?cols) [0..<?rows]
      (replicate ?rows (replicate ?cols False), 0, [], []) = Inr m' \<and> R (occ, tiles, ri) m'"
  proof (rule foldE_follows [of R "planRow img ?rows ?cols nameRoot"
        "mainRow env cfg img ?rows ?cols" "(NewOccGrid ?rows ?cols, [], 0)" _ "[0..<?rows]"])
    show "\<exists>m'. mainRow env cfg img ?rows ?cols x m = Inr m' \<and> R s' m'"
      if "R s m" and "planRow img ?rows ?cols nameRoot x s = Inr s'" for x s m s'
      using st that by blast
    show "R (NewOccGrid ?rows ?cols, [], 0) (replicate ?rows (replicate ?cols False), 0, [], [])"
      by (rule r0)
    show "foldE (planRow img ?rows ?cols nameRoot) [0..<?rows] (NewOccGrid ?rows ?cols, [], 0) =
      Inr (occ, tiles, ri)"
      by (rule fe)
  qed
  then obtain m' where m': "foldE (mainRow env cfg img ?rows ?cols) [0..<?rows]
      (replicate ?rows (replicate ?cols False), 0, [], []) = Inr m'"
    "inStep env cfg img occ tiles m'"
    by (auto simp: R_def)
  obtain g counter log done' where m: "m' = (g, counter, log, done')"
    by (cases m') auto
  have "main env cfg img = Inr (log, done')"
    using dims mk m'(1) m by (simp add: main_def Let_def)
  with m'(2) m show ?thesis by (simp add: inStep_def)
qed

text \<open>The run of main.go on an aligned image: it ends well, with a greedy exact tiling.\<close>

lemma main_sound:
  assumes dims: "Dx img mod 16 = 0" "Dy img mod 16 = 0" and mk: "canMkdir env (OutDir cfg)"
  shows "\<exists>log done'. main env cfg img = Inr (log, done')
      \<and> tiling (Dy img div 16) (Dx img div 16) (map xPlaced done')
      \<and> greedy (Dy img div 16) (Dx img div 16) (map xPlaced done')
      \<and> (\<forall>i < length done'. exportedFrom cfg img i (done' ! i))
      \<and> log = concat (map (filesOf_main env cfg) done')"
proof -
  from MakeTilePlan_sound [of img "Dy img div 16" "Dx img div 16" "[]"] obtain groups where
    p: "MakeTilePlan img (Dy img div 16) (Dx img div 16) [] = Inr (concat groups)"
    and t: "tiling (Dy img div 16) (Dx img div 16) (map Placed (concat groups))"
    and g: "greedy (Dy img div 16) (Dx img div 16) (map Placed (concat groups))"
    by blast
  from main_follows [OF dims mk p] t g show ?thesis by auto
qed

section \<open>Small grids\<close>

lemma MakeTilePlan_3x2:
  "MakeTilePlan img 3 2 nameRoot =
      Inr [\<lparr>Img = crop img 0 0 32 32, TileCT = 1, FileBase = nameRoot @ ''_0_0'',
             TileIndex = 0, RowIndex = 0,
             Placed = \<lparr>pRow = 0, pCol = 0, pH = 2, pW = 2, pCT = 1\<rparr>\<rparr>,
           \<lparr>Img = crop img 0 32 32 16, TileCT = 2, FileBase = nameRoot @ ''_1_0'',
             TileIndex = 0, RowIndex = 1,
             Placed = \<lparr>pRow = 2, pCol = 0, pH = 1, pW = 2, pCT = 2\<rparr>\<rparr>]"
  by (simp add: eval_plan eval_fmt)

lemma blank_dims: "Dx (blank w h) = w" "Dy (blank w h) = h"
  by (simp_all add: blank_def)

lemma permissive_mkdir: "canMkdir permissive d"
  by (simp add: permissive_def)

lemma main_32x48_placements:
  assumes "Dx img = 32" and "Dy img = 48" and "canMkdir env (OutDir cfg)"
  shows "exportedPlacements (main env cfg img) =
        Inr [\<lparr>pRow = 0, pCol = 0, pH = 2, pW = 2, pCT = 1\<rparr>,
             \<lparr>pRow = 2, pCol = 0, pH = 1, pW = 2, pCT = 2\<rparr>]"
  using assms by (simp add: exportedPlacements_def eval_main)

section \<open>Exact cover\<close>

text \<open>
  Claim C1. For every grid, \<open>MakeTilePlan\<close> returns a plan whose footprints tile the grid:
  every cell lies in the footprint of exactly one tile, and the unit areas add up to
  \<open>rows * cols\<close>. The same holds for the tiles that main.go exports for an image whose
  sides are multiples of 16, when the output directory can be made.
\<close>

theorem exact_cover:
  "(\<exists>tiles. MakeTilePlan img rows cols nameRoot = Inr tiles
       \<and> tiling rows cols (map Placed tiles))
   \<and> (Dx img mod 16 = 0 \<and> Dy img mod 16 = 0 \<and> canMkdir env (OutDir cfg) \<longrightarrow>
       (\<exists>log done'. main env cfg img = Inr (log, done')
          \<and> tiling (Dy img div 16) (Dx img div 16) (map xPlaced done')))"
proof (intro conjI impI)
  from MakeTilePlan_sound [of img rows cols nameRoot]
  show "\<exists>tiles. MakeTilePlan img rows cols nameRoot = Inr tiles
       \<and> tiling rows cols (map Placed tiles)"
    by blast
next
  assume "Dx img mod 16 = 0 \<and> Dy img mod 16 = 0 \<and> canMkdir env (OutDir cfg)"
  then have "Dx img mod 16 = 0" "Dy img mod 16 = 0" "canMkdir env (OutDir cfg)"
    by simp_all
  from main_sound [OF this]
  show "\<exists>log done'. main env cfg img = Inr (log, done')
          \<and> tiling (Dy img div 16) (Dx img div 16) (map xPlaced done')"
    by blast
qed

theorem exact_cover_witness:
  "tiling 3 2 [\<lparr>pRow = 0, pCol = 0, pH = 2, pW = 2, pCT = 1\<rparr>,
               \<lparr>pRow = 2, pCol = 0, pH = 1, pW = 2, pCT = 2\<rparr>]
   \<and> exportedPlacements (main permissive cfgPic (blank 32 48)) =
        Inr [\<lparr>pRow = 0, pCol = 0, pH = 2, pW = 2, pCT = 1\<rparr>,
             \<lparr>pRow = 2, pCol = 0, pH = 1, pW = 2, pCT = 2\<rparr>]"
proof -
  from exact_cover [of "blank 32 48" 3 2 "''pic''" permissive cfgPic]
  have "\<exists>tiles. MakeTilePlan (blank 32 48) 3 2 ''pic'' = Inr tiles
       \<and> tiling 3 2 (map Placed tiles)"
    by blast
  then have "tiling 3 2 [\<lparr>pRow = 0, pCol = 0, pH = 2, pW = 2, pCT = 1\<rparr>,
               \<lparr>pRow = 2, pCol = 0, pH = 1, pW = 2, pCT = 2\<rparr>]"
    by (simp add: MakeTilePlan_3x2)
  moreover have "exportedPlacements (main permissive cfgPic (blank 32 48)) =
        Inr [\<lparr>pRow = 0, pCol = 0, pH = 2, pW = 2, pCT = 1\<rparr>,
             \<lparr>pRow = 2, pCol = 0, pH = 1, pW = 2, pCT = 2\<rparr>]"
    by (rule main_32x48_placements) (simp_all add: blank_dims permissive_mkdir)
  ultimately show ?thesis by simp
qed

section \<open>First fit\<close>

lemma tileFrom_CT: "tileFrom img nameRoot t \<Longrightarrow> TileCT t = pCT (Placed t)"
  by (auto simp: tileFrom_def)

lemma catalog_descending:
  "sorted_wrt (\<lambda>a b. fst b * fst (snd b) \<le> fst a * fst (snd a)) catalog"
  by (simp add: catalog_eq)

text \<open>
  Claim C2. At every placement the planner takes the first free cell in row-major order
  and puts there the first entry of the catalog that stays within the grid and whose
  cells are all free, the occupied cells being those covered by the tiles placed before;
  no earlier entry of the catalog fits at that cell. The catalog is in descending order
  of area, and the tile carries the type code of the entry chosen. This holds for the
  plan of \<open>MakeTilePlan\<close> and for the tiles exported by main.go. On a well-formed grid
  the selection loops of both programs return the first entry of the catalog that fits,
  and none when no entry fits.
\<close>

theorem first_fit_choice:
  "(\<exists>tiles. MakeTilePlan img rows cols nameRoot = Inr tiles
       \<and> greedy rows cols (map Placed tiles)
       \<and> (\<forall>t \<in> set tiles. TileCT t = pCT (Placed t)))
   \<and> (Dx img mod 16 = 0 \<and> Dy img mod 16 = 0 \<and> canMkdir env (OutDir cfg) \<longrightarrow>
       (\<exists>log done'. main env cfg img = Inr (log, done')
          \<and> greedy (Dy img div 16) (Dx img div 16) (map xPlaced done')
          \<and> (\<forall>e \<in> set done'. nbtCT (nbtData e) = pCT (xPlaced e))))
   \<and> sorted_wrt (\<lambda>a b. fst b * fst (snd b) \<le> fst a * fst (snd a)) catalog
   \<and> (wf_grid rows cols (cells occ) \<longrightarrow>
       selectCanvas occ rows cols r c canvasTypes =
         Inr (List.find (\<lambda>can. fitsAt rows cols (occset rows cols (cells occ)) r c
                                  (UnitsH can) (UnitsW can)) canvasTypes)
       \<and> selectMain (cells occ) rows cols r c canvasTypes_main =
         Inr (map_option selOf
               (List.find (\<lambda>can. fitsAt rows cols (occset rows cols (cells occ)) r c
                                    (UnitsH can) (UnitsW can)) canvasTypes)))"
proof (intro conjI impI)
  from MakeTilePlan_sound [of img rows cols nameRoot] obtain groups where
    p: "MakeTilePlan img rows cols nameRoot = Inr (concat groups)"
    and g: "greedy rows cols (map Placed (concat groups))"
    and tf: "\<forall>t \<in> set (concat groups). tileFrom img nameRoot t"
    by blast
  have "\<forall>t \<in> set (concat groups). TileCT t = pCT (Placed t)"
    using tf tileFrom_CT by blast
  with p g show "\<exists>tiles. MakeTilePlan img rows cols nameRoot = Inr tiles
       \<and> greedy rows cols (map Placed tiles)
       \<and> (\<forall>t \<in> set tiles. TileCT t = pCT (Placed t))"
    by blast
next
  assume "Dx img mod 16 = 0 \<and> Dy img mod 16 = 0 \<and> canMkdir env (OutDir cfg)"
  then have "Dx img mod 16 = 0" "Dy img mod 16 = 0" "canMkdir env (OutDir cfg)"
    by simp_all
  from main_sound [OF this] obtain log done' where
    m: "main env cfg img = Inr (log, done')"
    and g: "greedy (Dy img div 16) (Dx img div 16) (map xPlaced done')"
    and ef: "\<forall>i < length done'. exportedFrom cfg img i (done' ! i)"
    by blast
  have "\<forall>e \<in> set done'. nbtCT (nbtData e) = pCT (xPlaced e)"
  proof
    fix e assume "e \<in> set done'"
    then obtain i where "i < length done'" "e = done' ! i"
      by (auto simp: in_set_conv_nth)
    with ef have "exportedFrom cfg img i e" by simp
    then show "nbtCT (nbtData e) = pCT (xPlaced e)"
      by (auto simp: exportedFrom_def)
  qed
  with m g show "\<exists>log done'. main env cfg img = Inr (log, done')
          \<and> greedy (Dy img div 16) (Dx img div 16) (map xPlaced done')
          \<and> (\<forall>e \<in> set done'. nbtCT (nbtData e) = pCT (xPlaced e))"
    by blast
next
  show "sorted_wrt (\<lambda>a b. fst b * fst (snd b) \<le> fst a * fst (snd a)) catalog"
    by (rule catalog_descending)
next
  assume wf: "wf_grid rows cols (cells occ)"
  show s: "selectCanvas occ rows cols r c canvasTypes =
         Inr (List.find (\<lambda>can. fitsAt rows cols (occset rows cols (cells occ)) r c
                                  (UnitsH can) (UnitsW can)) canvasTypes)"
    by (rule selectCanvas_find [OF wf])
  show "selectMain (cells occ) rows cols r c canvasTypes_main =
         Inr (map_option selOf
               (List.find (\<lambda>can. fitsAt rows cols (occset rows cols (cells occ)) r c
                                    (UnitsH can) (UnitsW can)) canvasTypes))"
    by (simp add: selectMain_eq s)
qed

theorem first_fit_choice_witness:
  "greedy 3 2 [\<lparr>pRow = 0, pCol = 0, pH = 2, pW = 2, pCT = 1\<rparr>,
               \<lparr>pRow = 2, pCol = 0, pH = 1, pW = 2, pCT = 2\<rparr>]
   \<and> exportedPlacements (main permissive cfgPic (blank 32 48)) =
        Inr [\<lparr>pRow = 0, pCol = 0, pH = 2, pW = 2, pCT = 1\<rparr>,
             \<lparr>pRow = 2, pCol = 0, pH = 1, pW = 2, pCT = 2\<rparr>]"
proof -
  from first_fit_choice [of "blank 32 48" 3 2 "''pic''" permissive cfgPic, THEN conjunct1]
  have "\<exists>tiles. MakeTilePlan (blank 32 48) 3 2 ''pic'' = Inr tiles
       \<and> greedy 3 2 (map Placed tiles)"
    by blast
  then have "greedy 3 2 [\<lparr>pRow = 0, pCol = 0, pH = 2, pW = 2, pCT = 1\<rparr>,
               \<lparr>pRow = 2, pCol = 0, pH = 1, pW = 2, pCT = 2\<rparr>]"
    by (simp add: MakeTilePlan_3x2)
  moreover have "exportedPlacements (main permissive cfgPic (blank 32 48)) =
        Inr [\<lparr>pRow = 0, pCol = 0, pH = 2, pW = 2, pCT = 1\<rparr>,
             \<lparr>pRow = 2, pCol = 0, pH = 1, pW = 2, pCT = 2\<rparr>]"
    by (rule main_32x48_placements) (simp_all add: blank_dims permissive_mkdir)
  ultimately show ?thesis by simp
qed

section \<open>The no-fit branch\<close>

text \<open>
  Claim C9. The no-fit branch cannot be taken. At a free cell of a well-formed grid the
  one-by-one entry of the catalog is within bounds and free, so the selection loops of
  both programs find an entry; and for every grid \<open>MakeTilePlan\<close> returns a plan, as
  main.go ends well on every image whose sides are multiples of 16 when the output
  directory can be made: neither ends in the no-fit error nor in an index panic.
\<close>

theorem no_fit_unreachable:
  "(wf_grid rows cols (cells occ) \<and> r < rows \<and> c < cols \<and> \<not> cells occ ! r ! c \<longrightarrow>
      fitsAt rows cols (occset rows cols (cells occ)) r c 1 1
      \<and> (1, 1, 0) \<in> set catalog
      \<and> (\<exists>sel. selectCanvas occ rows cols r c canvasTypes = Inr (Some sel))
      \<and> (\<exists>sel. selectMain (cells occ) rows cols r c canvasTypes_main = Inr (Some sel)))
   \<and> (\<exists>tiles. MakeTilePlan img rows cols nameRoot = Inr tiles)
   \<and> (Dx img mod 16 = 0 \<and> Dy img mod 16 = 0 \<and> canMkdir env (OutDir cfg) \<longrightarrow>
       (\<exists>out. main env cfg img = Inr out))"
proof (intro conjI impI)
  assume a: "wf_grid rows cols (cells occ) \<and> r < rows \<and> c < cols \<and> \<not> cells occ ! r ! c"
  then have wf: "wf_grid rows cols (cells occ)" and rc: "r < rows" "c < cols"
    and nin: "(r, c) \<notin> occset rows cols (cells occ)"
    by (simp_all add: occset_iff)
  show "fitsAt rows cols (occset rows cols (cells occ)) r c 1 1"
    using unit_fits [OF rc nin] .
  from find_canvas_Some [OF rc nin] obtain sel where
    "List.find (\<lambda>can. fitsAt rows cols (occset rows cols (cells occ)) r c
        (UnitsH can) (UnitsW can)) canvasTypes = Some sel"
    by blast
  then have s: "selectCanvas occ rows cols r c canvasTypes = Inr (Some sel)"
    by (simp add: selectCanvas_find [OF wf])
  then show "\<exists>sel. selectCanvas occ rows cols r c canvasTypes = Inr (Some sel)"
    by blast
  from s show "\<exists>sel. selectMain (cells occ) rows cols r c canvasTypes_main = Inr (Some sel)"
    by (simp add: selectMain_eq)
next
  show "(1, 1, 0) \<in> set catalog" by (simp add: catalog_eq)
next
  from MakeTilePlan_sound [of img rows cols nameRoot]
  show "\<exists>tiles. MakeTilePlan img rows cols nameRoot = Inr tiles" by blast
next
  assume "Dx img mod 16 = 0 \<and> Dy img mod 16 = 0 \<and> canMkdir env (OutDir cfg)"
  then have "Dx img mod 16 = 0" "Dy img mod 16 = 0" "canMkdir env (OutDir cfg)"
    by simp_all
  from main_sound [OF this] show "\<exists>out. main env cfg img = Inr out" by blast
qed

theorem no_fit_unreachable_witness:
  "fitsAt 1 1 (occset 1 1 (cells (NewOccGrid 1 1))) 0 0 1 1
   \<and> selectCanvas (NewOccGrid 1 1) 1 1 0 0 canvasTypes =
       Inr (Some \<lparr>PxW = 16, PxH = 16, UnitsW = 1, UnitsH = 1, CT = 0\<rparr>)
   \<and> exportedPlacements (main permissive cfgPic (blank 16 16)) =
       Inr [\<lparr>pRow = 0, pCol = 0, pH = 1, pW = 1, pCT = 0\<rparr>]"
proof -
  have wf: "wf_grid 1 1 (cells (NewOccGrid 1 1))"
    by (simp add: wf_grid_def NewOccGrid_def)
  have free: "\<not> cells (NewOccGrid 1 1) ! 0 ! 0"
    by (simp add: NewOccGrid_def)
  from no_fit_unreachable [of 1 1 "NewOccGrid 1 1" 0 0 "blank 16 16" "''pic''" permissive cfgPic]
    wf free
  have "fitsAt 1 1 (occset 1 1 (cells (NewOccGrid 1 1))) 0 0 1 1"
    and "\<exists>out. main permissive cfgPic (blank 16 16) = Inr out"
    by (simp_all add: blank_dims permissive_mkdir)
  moreover have "selectCanvas (NewOccGrid 1 1) 1 1 0 0 canvasTypes =
       Inr (Some \<lparr>PxW = 16, PxH = 16, UnitsW = 1, UnitsH = 1, CT = 0\<rparr>)"
    by (simp add: canvasTypes_def Empty_def NewOccGrid_def)
  moreover have "exportedPlacements (main permissive cfgPic (blank 16 16)) =
       Inr [\<lparr>pRow = 0, pCol = 0, pH = 1, pW = 1, pCT = 0\<rparr>]"
    by (simp add: exportedPlacements_def eval_main blank_dims permissive_mkdir)
  ultimately show ?thesis by simp
qed

section \<open>Row-group and tile indices\<close>

lemma filter_concat_beyond:
  assumes "\<forall>j < length groups. \<forall>t \<in> set (groups ! j). f t = j" and "length groups \<le> r"
  shows "filter (\<lambda>t. f t = r) (concat groups) = []"
proof -
  have "f t \<noteq> r" if "t \<in> set (concat groups)" for t
  proof -
    from that obtain g where "g \<in> set groups" "t \<in> set g"
      by auto
    then obtain j where "j < length groups" "t \<in> set (groups ! j)"
      by (metis in_set_conv_nth)
    with assms show ?thesis by auto
  qed
  then show ?thesis by (simp add: filter_empty_conv)
qed

lemma filter_concat_group:
  "(\<forall>j < length groups. \<forall>t \<in> set (groups ! j). f t = j) \<Longrightarrow> r < length groups \<Longrightarrow>
   filter (\<lambda>t. f t = r) (concat groups) = groups ! r"
proof (induction groups rule: rev_induct)
  case Nil
  then show ?case by simp
next
  case (snoc g groups)
  have old: "\<forall>j < length groups. \<forall>t \<in> set (groups ! j). f t = j"
  proof (intro allI impI ballI)
    fix j t assume "j < length groups" "t \<in> set (groups ! j)"
    with snoc.prems(1) [rule_format, of j t] show "f t = j" by (simp add: nth_append)
  qed
  have last: "\<forall>t \<in> set g. f t = length groups"
    using snoc.prems(1) [rule_format, of "length groups"] by simp
  show ?case
  proof (cases "r < length groups")
    case True
    have "filter (\<lambda>t. f t = r) g = []"
      using last True by (auto simp: filter_empty_conv)
    with snoc.IH [OF old True] True show ?thesis by (simp add: nth_append)
  next
    case False
    with snoc.prems(2) have r: "r = length groups" by simp
    have "filter (\<lambda>t. f t = r) (concat groups) = []"
      using filter_concat_beyond [OF old] r by simp
    moreover have "filter (\<lambda>t. f t = r) g = g"
      using last r by (simp add: filter_id_conv)
    ultimately show ?thesis using r by simp
  qed
qed

lemma indexed_groupsByRow:
  assumes "indexed groups"
  shows "groupsByRow (length groups) (concat groups) = groups"
proof (rule nth_equalityI)
  show "length (groupsByRow (length groups) (concat groups)) = length groups"
    by (simp add: groupsByRow_def)
next
  fix r assume "r < length (groupsByRow (length groups) (concat groups))"
  then have r: "r < length groups" by (simp add: groupsByRow_def)
  have "\<forall>j < length groups. \<forall>t \<in> set (groups ! j). pRow (Placed t) = j"
    using assms by (auto simp: indexed_def in_set_conv_nth)
  from filter_concat_group [OF this r] r
  show "groupsByRow (length groups) (concat groups) ! r = groups ! r"
    by (simp add: groupsByRow_def)
qed

text \<open>
  Claim C3. Group the tiles of the plan by the physical row of their anchor, in plan
  order. The tile at position \<open>k\<close> of the group of row \<open>r\<close> has tile index \<open>k\<close>: the
  index starts at 0 in each row that places a tile and grows by one per placement of
  that row. Its row-group index is the number of rows before \<open>r\<close> that placed at least
  one tile: the index starts at 0 and advances past a row exactly when the row placed a
  tile, so a row consumed by taller tiles of earlier rows leaves it as it is.
\<close>

theorem row_group_indices:
  "\<exists>tiles. MakeTilePlan img rows cols nameRoot = Inr tiles
     \<and> concat (groupsByRow rows tiles) = tiles
     \<and> indexed (groupsByRow rows tiles)"
proof -
  from MakeTilePlan_sound [of img rows cols nameRoot] obtain groups where
    p: "MakeTilePlan img rows cols nameRoot = Inr (concat groups)"
    and l: "length groups = rows" and ix: "indexed groups"
    by blast
  from indexed_groupsByRow [OF ix] l
  have "groupsByRow rows (concat groups) = groups" by simp
  with p ix show ?thesis by simp
qed

theorem row_group_indices_witness:
  "groupsByRow 3
      [\<lparr>Img = crop (blank 32 48) 0 0 32 32, TileCT = 1, FileBase = ''pic_0_0'',
         TileIndex = 0, RowIndex = 0,
         Placed = \<lparr>pRow = 0, pCol = 0, pH = 2, pW = 2, pCT = 1\<rparr>\<rparr>,
       \<lparr>Img = crop (blank 32 48) 0 32 32 16, TileCT = 2, FileBase = ''pic_1_0'',
         TileIndex = 0, RowIndex = 1,
         Placed = \<lparr>pRow = 2, pCol = 0, pH = 1, pW = 2, pCT = 2\<rparr>\<rparr>] =
    [[\<lparr>Img = crop (blank 32 48) 0 0 32 32, TileCT = 1, FileBase = ''pic_0_0'',
         TileIndex = 0, RowIndex = 0,
         Placed = \<lparr>pRow = 0, pCol = 0, pH = 2, pW = 2, pCT = 1\<rparr>\<rparr>],
     [],
     [\<lparr>Img = crop (blank 32 48) 0 32 32 16, TileCT = 2, FileBase = ''pic_1_0'',
         TileIndex = 0, RowIndex = 1,
         Placed = \<lparr>pRow = 2, pCol = 0, pH = 1, pW = 2, pCT = 2\<rparr>\<rparr>]]
   \<and> indexed
    [[\<lparr>Img = crop (blank 32 48) 0 0 32 32, TileCT = 1, FileBase = ''pic_0_0'',
         TileIndex = 0, RowIndex = 0,
         Placed = \<lparr>pRow = 0, pCol = 0, pH = 2, pW = 2, pCT = 1\<rparr>\<rparr>],
     [],
     [\<lparr>Img = crop (blank 32 48) 0 32 32 16, TileCT = 2, FileBase = ''pic_1_0'',
         TileIndex = 0, RowIndex = 1,
         Placed = \<lparr>pRow = 2, pCol = 0, pH = 1, pW = 2, pCT = 2\<rparr>\<rparr>]]"
proof -
  let ?t1 = "\<lparr>Img = crop (blank 32 48) 0 0 32 32, TileCT = 1, FileBase = ''pic_0_0'',
         TileIndex = 0, RowIndex = 0,
         Placed = \<lparr>pRow = 0, pCol = 0, pH = 2, pW = 2, pCT = 1\<rparr>\<rparr>"
  let ?t2 = "\<lparr>Img = crop (blank 32 48) 0 32 32 16, TileCT = 2, FileBase = ''pic_1_0'',
         TileIndex = 0, RowIndex = 1,
         Placed = \<lparr>pRow = 2, pCol = 0, pH = 1, pW = 2, pCT = 2\<rparr>\<rparr>"
  have g: "groupsByRow 3 [?t1, ?t2] = [[?t1], [], [?t2]]"
    by (simp add: groupsByRow_def upt_rec numeral_3_eq_3)
  from row_group_indices [of "blank 32 48" 3 2 "''pic''"]
  have "indexed (groupsByRow 3 [?t1, ?t2])"
    by (simp add: MakeTilePlan_3x2)
  with g show ?thesis by simp
qed

section \<open>Grids with an even number of rows and columns\<close>

lemma rect_2x2_block:
  assumes "even r" and "even c"
  shows "((y, x) \<in> rect r c 2 2) = (y div 2 = r div 2 \<and> x div 2 = c div 2)"
proof -
  from assms obtain a b where "r = 2 * a" "c = 2 * b" by (auto elim!: evenE)
  then show ?thesis by (auto simp: rect_def)
qed

lemma greedy_even_large:
  assumes gr: "greedy rows cols ps" and ev: "even rows" "even cols"
  shows "i < length ps \<Longrightarrow>
    pH (ps ! i) = 2 \<and> pW (ps ! i) = 2 \<and> pCT (ps ! i) = 1
    \<and> even (pRow (ps ! i)) \<and> even (pCol (ps ! i))"
proof (induction i rule: less_induct)
  case (less i)
  let ?p = "ps ! i" and ?O = "covered (take i ps)"
  let ?r = "pRow ?p" and ?c = "pCol ?p"
  from gr less.prems have ga: "greedyAt rows cols ?O ?p" by (simp add: greedy_def)
  then have rc: "?r < rows" "?c < cols" and free: "(?r, ?c) \<notin> ?O"
    and bef: "\<forall>y < rows. \<forall>x < cols. before y x ?r ?c \<longrightarrow> (y, x) \<in> ?O"
    and ff: "firstFit rows cols ?O ?p"
    by (simp_all add: greedyAt_def)
  have block: "(y', x') \<in> ?O"
    if "(y, x) \<in> ?O" and "y' div 2 = y div 2" and "x' div 2 = x div 2" for y x y' x'
  proof -
    from that(1) obtain q where q: "q \<in> set (take i ps)" "(y, x) \<in> foot q"
      by (auto simp: covered_def)
    then obtain j where j: "j < i" "j < length ps" "q = ps ! j"
      using less.prems by (auto simp: in_set_conv_nth)
    from less.IH [OF j(1,2)] j(3) have
      "pH q = 2" "pW q = 2" "even (pRow q)" "even (pCol q)" by simp_all
    then have "\<And>v u. ((v, u) \<in> foot q) = (v div 2 = pRow q div 2 \<and> u div 2 = pCol q div 2)"
      by (simp add: foot_def rect_2x2_block)
    with q(2) that(2,3) have "(y', x') \<in> foot q" by simp
    with q(1) show ?thesis by (auto simp: covered_def)
  qed
  have er: "even ?r"
  proof (rule ccontr)
    assume odd: "odd ?r"
    then have "?r - 1 < rows" "before (?r - 1) ?c ?r ?c"
      using rc by (auto simp: before_def elim!: oddE)
    with bef rc have "(?r - 1, ?c) \<in> ?O" by blast
    moreover have "?r div 2 = (?r - 1) div 2" using odd by (auto elim!: oddE)
    ultimately have "(?r, ?c) \<in> ?O" by (rule block) simp_all
    with free show False by simp
  qed
  have ec: "even ?c"
  proof (rule ccontr)
    assume odd: "odd ?c"
    then have "?c - 1 < cols" "before ?r (?c - 1) ?r ?c"
      using rc by (auto simp: before_def elim!: oddE)
    with bef rc have "(?r, ?c - 1) \<in> ?O" by blast
    moreover have "?c div 2 = (?c - 1) div 2" using odd by (auto elim!: oddE)
    ultimately have "(?r, ?c) \<in> ?O" using block [of ?r "?c - 1" ?r ?c] by simp
    with free show False by simp
  qed
  have fits: "fitsAt rows cols ?O ?r ?c 2 2"
  proof -
    have "?r + 2 \<le> rows" "?c + 2 \<le> cols"
      using rc er ec ev by (auto elim!: evenE)
    moreover have "rect ?r ?c 2 2 \<inter> ?O = {}"
    proof (rule ccontr)
      assume "rect ?r ?c 2 2 \<inter> ?O \<noteq> {}"
      then obtain y x where yx: "(y, x) \<in> rect ?r ?c 2 2" "(y, x) \<in> ?O" by auto
      from yx(1) have "?r div 2 = y div 2" "?c div 2 = x div 2"
        by (simp_all add: rect_2x2_block [OF er ec])
      with yx(2) have "(?r, ?c) \<in> ?O" by (rule block)
      with free show False by simp
    qed
    ultimately show ?thesis by (simp add: fitsAt_def)
  qed
  from ff obtain k where k: "k < length catalog" "catalog ! k = (pH ?p, pW ?p, pCT ?p)"
    "\<forall>j < k. \<not> fitsAt rows cols ?O ?r ?c (fst (catalog ! j)) (fst (snd (catalog ! j)))"
    by (auto simp: firstFit_def)
  have "k = 0"
  proof (rule ccontr)
    assume "k \<noteq> 0"
    then have "0 < k" by simp
    with k(3) have "\<not> fitsAt rows cols ?O ?r ?c (fst (catalog ! 0)) (fst (snd (catalog ! 0)))"
      by blast
    with fits show False by (simp add: catalog_eq)
  qed
  with k(2) have "pH ?p = 2" "pW ?p = 2" "pCT ?p = 1" by (simp_all add: catalog_eq)
  with er ec show ?case by simp
qed

lemma all_large_count:
  assumes "tiling rows cols ps" and "\<forall>p \<in> set ps. pH p = 2 \<and> pW p = 2"
  shows "4 * length ps = rows * cols"
proof -
  have "sum_list (map area ps) = 4 * length ps"
    using assms(2) by (induction ps) (simp_all add: area_def)
  with assms(1) show ?thesis by (simp add: tiling_def)
qed

lemma tileFrom_large:
  assumes "tileFrom img nameRoot t" and "pH (Placed t) = 2" and "pW (Placed t) = 2"
  shows "Dx (Img t) = 32 \<and> Dy (Img t) = 32"
proof -
  from assms(1) obtain can where can: "can \<in> set canvasTypes"
    "Img t = crop img (pCol (Placed t) * 16) (pRow (Placed t) * 16) (PxW can) (PxH can)"
    "pH (Placed t) = UnitsH can" "pW (Placed t) = UnitsW can"
    by (auto simp: tileFrom_def)
  from canvas_px [OF can(1)] can(3,4) assms(2,3) have "PxW can = 32" "PxH can = 32"
    by simp_all
  with can(2) show ?thesis by (simp add: crop_def)
qed

lemma MakeTilePlan_2x2:
  "MakeTilePlan img 2 2 nameRoot =
      Inr [\<lparr>Img = crop img 0 0 32 32, TileCT = 1, FileBase = nameRoot @ ''_0_0'',
             TileIndex = 0, RowIndex = 0,
             Placed = \<lparr>pRow = 0, pCol = 0, pH = 2, pW = 2, pCT = 1\<rparr>\<rparr>]"
  by (simp add: eval_plan eval_fmt)

lemma main_32x32_placements:
  assumes "Dx img = 32" and "Dy img = 32" and "canMkdir env (OutDir cfg)"
  shows "exportedPlacements (main env cfg img) =
        Inr [\<lparr>pRow = 0, pCol = 0, pH = 2, pW = 2, pCT = 1\<rparr>]"
  using assms by (simp add: exportedPlacements_def eval_main)

text \<open>
  Claim C10. On a grid with an even number of rows and an even number of columns every
  tile of the plan is a two-by-two tile of type code 1, cropped to 32 by 32 pixels, and
  the plan has \<open>rows * cols / 4\<close> tiles. The same holds for the tiles main.go exports
  for an image whose sides are multiples of 32.
\<close>

theorem even_grid_all_large:
  "(even rows \<and> even cols \<longrightarrow>
      (\<exists>tiles. MakeTilePlan img rows cols nameRoot = Inr tiles
         \<and> (\<forall>t \<in> set tiles. TileCT t = 1 \<and> pH (Placed t) = 2 \<and> pW (Placed t) = 2
               \<and> Dx (Img t) = 32 \<and> Dy (Img t) = 32)
         \<and> 4 * length tiles = rows * cols))
   \<and> (Dx img mod 32 = 0 \<and> Dy img mod 32 = 0 \<and> canMkdir env (OutDir cfg) \<longrightarrow>
      (\<exists>log done'. main env cfg img = Inr (log, done')
         \<and> (\<forall>e \<in> set done'. nbtCT (nbtData e) = 1 \<and> pH (xPlaced e) = 2 \<and> pW (xPlaced e) = 2)
         \<and> 4 * length done' = (Dy img div 16) * (Dx img div 16)))"
proof (intro conjI impI)
  assume "even rows \<and> even cols"
  then have ev: "even rows" "even cols" by simp_all
  from MakeTilePlan_sound [of img rows cols nameRoot] obtain groups where
    p: "MakeTilePlan img rows cols nameRoot = Inr (concat groups)"
    and ti: "tiling rows cols (map Placed (concat groups))"
    and gr: "greedy rows cols (map Placed (concat groups))"
    and tf: "\<forall>t \<in> set (concat groups). tileFrom img nameRoot t"
    by blast
  let ?tiles = "concat groups"
  have large: "pH (Placed t) = 2 \<and> pW (Placed t) = 2 \<and> pCT (Placed t) = 1"
    if "t \<in> set ?tiles" for t
  proof -
    from that obtain i where i: "i < length ?tiles" "t = ?tiles ! i"
      by (metis in_set_conv_nth)
    from greedy_even_large [OF gr ev, of i] i show ?thesis by simp
  qed
  have all: "\<forall>t \<in> set ?tiles. TileCT t = 1 \<and> pH (Placed t) = 2 \<and> pW (Placed t) = 2
               \<and> Dx (Img t) = 32 \<and> Dy (Img t) = 32"
  proof
    fix t assume t: "t \<in> set ?tiles"
    with tf have f: "tileFrom img nameRoot t" by blast
    from large [OF t] tileFrom_CT [OF f] tileFrom_large [OF f]
    show "TileCT t = 1 \<and> pH (Placed t) = 2 \<and> pW (Placed t) = 2
               \<and> Dx (Img t) = 32 \<and> Dy (Img t) = 32"
      by simp
  qed
  have "4 * length (map Placed ?tiles) = rows * cols"
    using ti large by (intro all_large_count) auto
  with p all show "\<exists>tiles. MakeTilePlan img rows cols nameRoot = Inr tiles
         \<and> (\<forall>t \<in> set tiles. TileCT t = 1 \<and> pH (Placed t) = 2 \<and> pW (Placed t) = 2
               \<and> Dx (Img t) = 32 \<and> Dy (Img t) = 32)
         \<and> 4 * length tiles = rows * cols"
    by auto
next
  assume a: "Dx img mod 32 = 0 \<and> Dy img mod 32 = 0 \<and> canMkdir env (OutDir cfg)"
  then have mk: "canMkdir env (OutDir cfg)" by simp
  from a have x: "Dx img mod 32 = 0" and y: "Dy img mod 32 = 0" by simp_all
  from x have dx: "Dx img mod 16 = 0" and ex: "even (Dx img div 16)" by presburger+
  from y have dy: "Dy img mod 16 = 0" and ey: "even (Dy img div 16)" by presburger+
  note d = dx dy and ev = ey ex
  from main_sound [OF d mk] obtain log done' where
    m: "main env cfg img = Inr (log, done')"
    and ti: "tiling (Dy img div 16) (Dx img div 16) (map xPlaced done')"
    and gr: "greedy (Dy img div 16) (Dx img div 16) (map xPlaced done')"
    and ef: "\<forall>i < length done'. exportedFrom cfg img i (done' ! i)"
    by blast
  have all: "\<forall>e \<in> set done'. nbtCT (nbtData e) = 1 \<and> pH (xPlaced e) = 2 \<and> pW (xPlaced e) = 2"
  proof
    fix e assume "e \<in> set done'"
    then obtain i where i: "i < length done'" "e = done' ! i"
      by (metis in_set_conv_nth)
    from greedy_even_large [OF gr ev, of i] i
    have l: "pH (xPlaced e) = 2" "pW (xPlaced e) = 2" "pCT (xPlaced e) = 1" by simp_all
    from ef i have "exportedFrom cfg img i e" by simp
    then have "nbtCT (nbtData e) = pCT (xPlaced e)" by (auto simp: exportedFrom_def)
    with l show "nbtCT (nbtData e) = 1 \<and> pH (xPlaced e) = 2 \<and> pW (xPlaced e) = 2" by simp
  qed
  have "4 * length (map xPlaced done') = (Dy img div 16) * (Dx img div 16)"
    using ti all by (intro all_large_count) auto
  with m all show "\<exists>log done'. main env cfg img = Inr (log, done')
         \<and> (\<forall>e \<in> set done'. nbtCT (nbtData e) = 1 \<and> pH (xPlaced e) = 2 \<and> pW (xPlaced e) = 2)
         \<and> 4 * length done' = (Dy img div 16) * (Dx img div 16)"
    by auto
qed

theorem even_grid_all_large_witness:
  "TileCT \<lparr>Img = crop (blank 32 32) 0 0 32 32, TileCT = 1, FileBase = ''pic_0_0'',
             TileIndex = 0, RowIndex = 0,
             Placed = \<lparr>pRow = 0, pCol = 0, pH = 2, pW = 2, pCT = 1\<rparr>\<rparr> = 1
   \<and> Dx (crop (blank 32 32) 0 0 32 32) = 32
   \<and> Dy (crop (blank 32 32) 0 0 32 32) = 32
   \<and> 4 * length [\<lparr>Img = crop (blank 32 32) 0 0 32 32, TileCT = 1, FileBase = ''pic_0_0'',
             TileIndex = 0, RowIndex = 0,
             Placed = \<lparr>pRow = 0, pCol = 0, pH = 2, pW = 2, pCT = 1\<rparr>\<rparr>] = 2 * (2 :: nat)
   \<and> exportedPlacements (main permissive cfgPic (blank 32 32)) =
        Inr [\<lparr>pRow = 0, pCol = 0, pH = 2, pW = 2, pCT = 1\<rparr>]"
proof -
  let ?t = "\<lparr>Img = crop (blank 32 32) 0 0 32 32, TileCT = 1, FileBase = ''pic_0_0'',
             TileIndex = 0, RowIndex = 0,
             Placed = \<lparr>pRow = 0, pCol = 0, pH = 2, pW = 2, pCT = 1\<rparr>\<rparr>"
  from even_grid_all_large [of 2 2 "blank 32 32" "''pic''" permissive cfgPic]
  have "(\<forall>t \<in> set [?t]. TileCT t = 1 \<and> pH (Placed t) = 2 \<and> pW (Placed t) = 2
               \<and> Dx (Img t) = 32 \<and> Dy (Img t) = 32)
         \<and> 4 * length [?t] = 2 * (2 :: nat)"
    by (simp add: MakeTilePlan_2x2)
  then have "TileCT ?t = 1 \<and> Dx (crop (blank 32 32) 0 0 32 32) = 32
      \<and> Dy (crop (blank 32 32) 0 0 32 32) = 32 \<and> 4 * length [?t] = 2 * (2 :: nat)"
    by simp
  moreover have "exportedPlacements (main permissive cfgPic (blank 32 32)) =
        Inr [\<lparr>pRow = 0, pCol = 0, pH = 2, pW = 2, pCT = 1\<rparr>]"
    by (rule main_32x32_placements) (simp_all add: blank_dims permissive_mkdir)
  ultimately show ?thesis by blast
qed

section \<open>File names\<close>

lemma extScan_suffix: "\<exists>pre. rev xs @ acc = pre @ extScan xs acc"
proof (induction xs arbitrary: acc)
  case Nil
  show ?case by simp
next
  case (Cons ch rest)
  from Cons.IH [of "ch # acc"] show ?case by auto
qed

lemma Ext_suffix: "\<exists>pre. s = pre @ Ext s"
  using extScan_suffix [of "rev s" "[]"] by (simp add: Ext_def)

lemma TrimSuffix_Ext: "TrimSuffix s (Ext s) = take (length s - length (Ext s)) s"
proof -
  from Ext_suffix [of s] obtain pre where pre: "s = pre @ Ext s" by blast
  then have "length (Ext s) \<le> length s"
    by (metis length_append le_add2)
  moreover have "drop (length s - length (Ext s)) s = Ext s"
    by (metis pre append_eq_conv_conj add_diff_cancel_right' length_append)
  ultimately show ?thesis by (simp add: TrimSuffix_def)
qed

lemma nameRootOf_trimExt: "nameRootOf input = trimExt (Base input)"
  by (simp add: nameRootOf_def trimExt_def Let_def TrimSuffix_Ext)

lemma MakeTilePlan_2x3:
  "planIndices (MakeTilePlan img 2 3 nameRoot) = Inr [(0, 0), (0, 1)]"
  by (simp add: planIndices_def eval_plan eval_fmt)

lemma main_48x32_names:
  assumes "Dx img = 48" and "Dy img = 32" and "canMkdir env (OutDir cfg)"
  shows "exportedNames (main env cfg img) =
      Inr [trimExt (Base (InputPath cfg)) @ ''_0_0'', trimExt (Base (InputPath cfg)) @ ''_2_0'']"
  using assms by (simp add: exportedNames_def eval_main eval_fmt)

lemma crop_dims: "Dx (crop img x y w h) = w" "Dy (crop img x y w h) = h"
  by (simp_all add: crop_def)

lemma exportTile_ok:
  assumes "canCreate env (OutDir cfg) (FileBase t @ ''.bmp'')"
    and "canCreate env (OutDir cfg) (FileBase t @ ''.paint'')"
  shows "exportTile env cfg t counter log =
    (log @ [\<lparr>fdir = OutDir cfg, fname = FileBase t @ ''.bmp'', fdata = BMP (Img t)\<rparr>,
            \<lparr>fdir = OutDir cfg, fname = FileBase t @ ''.paint'',
              fdata = Paint (tileNBT cfg t counter
                               (rowMajor (Img t) (Dx (Img t)) (Dy (Img t))))\<rparr>], None)"
  using assms by (simp add: exportTile_def writeBMP_def writePaint_def buildPixels_rowMajor)

lemma tileFrom_FileBase:
  "tileFrom img nameRoot t \<Longrightarrow>
   FileBase t = nameRoot @ ''_'' @ fmt_d (int (RowIndex t)) @ ''_'' @ fmt_d (int (TileIndex t))"
  by (auto simp: tileFrom_def sprintf_sdd_def)

lemma exportedFrom_nameBase:
  "exportedFrom cfg img i e \<Longrightarrow>
   nameBase e = trimExt (Base (InputPath cfg)) @ ''_'' @ fmt_d (int (pCol (xPlaced e)))
                  @ ''_'' @ fmt_d (int (pRow (xPlaced e)))"
  by (auto simp: exportedFrom_def sprintf_sdd_def)

lemma parseFlags_cfgPic:
  "parseFlags ''in/pic.png'' ''Unknown'' ''Untitled'' ''tiles'' 1000 = Inr cfgPic"
  by (simp add: parseFlags_def cfgPic_def)

text \<open>
  Claim C5, as the code has it. Let the configuration come from \<open>parseFlags\<close>, so that
  the name root is the base name of the input path with its extension removed. For
  every tile of the plan of \<open>MakeTilePlan\<close> the file base is the name root, the row-group
  index and the tile index joined by underscores, and \<open>exportTile\<close> writes the bitmap
  and the descriptor under that base with the extensions \<open>.bmp\<close> and \<open>.paint\<close>. The
  loop of main.go, which keeps neither index, names the two files of a tile after the
  trimmed base name of the input path, the column and the row of the anchor cell.
\<close>

theorem file_base_names:
  assumes "parseFlags input author title out now = Inr cfg"
  shows "NameRoot cfg = trimExt (Base (InputPath cfg))
    \<and> (\<exists>tiles. MakeTilePlan img rows cols (NameRoot cfg) = Inr tiles
        \<and> (\<forall>t \<in> set tiles.
              FileBase t = NameRoot cfg @ ''_'' @ fmt_d (int (RowIndex t))
                             @ ''_'' @ fmt_d (int (TileIndex t))
              \<and> (\<forall>counter log.
                    canCreate env (OutDir cfg) (FileBase t @ ''.bmp'')
                    \<and> canCreate env (OutDir cfg) (FileBase t @ ''.paint'') \<longrightarrow>
                    exportTile env cfg t counter log =
                      (log @ [\<lparr>fdir = OutDir cfg, fname = FileBase t @ ''.bmp'',
                                fdata = BMP (Img t)\<rparr>,
                              \<lparr>fdir = OutDir cfg, fname = FileBase t @ ''.paint'',
                                fdata = Paint (tileNBT cfg t counter
                                  (rowMajor (Img t) (Dx (Img t)) (Dy (Img t))))\<rparr>], None))))
    \<and> (Dx img mod 16 = 0 \<and> Dy img mod 16 = 0 \<and> canMkdir env (OutDir cfg) \<longrightarrow>
        (\<exists>log done'. main env cfg img = Inr (log, done')
           \<and> log = concat (map (filesOf_main env cfg) done')
           \<and> (\<forall>e \<in> set done'.
                 nameBase e = trimExt (Base (InputPath cfg)) @ ''_''
                   @ fmt_d (int (pCol (xPlaced e))) @ ''_'' @ fmt_d (int (pRow (xPlaced e))))))"
proof (intro conjI impI)
  from assms show "NameRoot cfg = trimExt (Base (InputPath cfg))"
    by (auto simp: parseFlags_def nameRootOf_trimExt split: if_splits)
next
  from MakeTilePlan_sound [of img rows cols "NameRoot cfg"] obtain groups where
    p: "MakeTilePlan img rows cols (NameRoot cfg) = Inr (concat groups)"
    and tf: "\<forall>t \<in> set (concat groups). tileFrom img (NameRoot cfg) t"
    by blast
  have "\<forall>t \<in> set (concat groups).
      FileBase t = NameRoot cfg @ ''_'' @ fmt_d (int (RowIndex t))
                     @ ''_'' @ fmt_d (int (TileIndex t))
      \<and> (\<forall>counter log.
            canCreate env (OutDir cfg) (FileBase t @ ''.bmp'')
            \<and> canCreate env (OutDir cfg) (FileBase t @ ''.paint'') \<longrightarrow>
            exportTile env cfg t counter log =
              (log @ [\<lparr>fdir = OutDir cfg, fname = FileBase t @ ''.bmp'',
                        fdata = BMP (Img t)\<rparr>,
                      \<lparr>fdir = OutDir cfg, fname = FileBase t @ ''.paint'',
                        fdata = Paint (tileNBT cfg t counter
                                  (rowMajor (Img t) (Dx (Img t)) (Dy (Img t))))\<rparr>], None))"
    using tf tileFrom_FileBase exportTile_ok by blast
  with p show "\<exists>tiles. MakeTilePlan img rows cols (NameRoot cfg) = Inr tiles
        \<and> (\<forall>t \<in> set tiles.
              FileBase t = NameRoot cfg @ ''_'' @ fmt_d (int (RowIndex t))
                             @ ''_'' @ fmt_d (int (TileIndex t))
              \<and> (\<forall>counter log.
                    canCreate env (OutDir cfg) (FileBase t @ ''.bmp'')
                    \<and> canCreate env (OutDir cfg) (FileBase t @ ''.paint'') \<longrightarrow>
                    exportTile env cfg t counter log =
                      (log @ [\<lparr>fdir = OutDir cfg, fname = FileBase t @ ''.bmp'',
                                fdata = BMP (Img t)\<rparr>,
                              \<lparr>fdir = OutDir cfg, fname = FileBase t @ ''.paint'',
                                fdata = Paint (tileNBT cfg t counter
                                  (rowMajor (Img t) (Dx (Img t)) (Dy (Img t))))\<rparr>], None)))"
    by blast
next
  assume "Dx img mod 16 = 0 \<and> Dy img mod 16 = 0 \<and> canMkdir env (OutDir cfg)"
  then have "Dx img mod 16 = 0" "Dy img mod 16 = 0" "canMkdir env (OutDir cfg)"
    by simp_all
  from main_sound [OF this] obtain log done' where
    m: "main env cfg img = Inr (log, done')"
    and ef: "\<forall>i < length done'. exportedFrom cfg img i (done' ! i)"
    and lg: "log = concat (map (filesOf_main env cfg) done')"
    by blast
  have "\<forall>e \<in> set done'.
      nameBase e = trimExt (Base (InputPath cfg)) @ ''_''
        @ fmt_d (int (pCol (xPlaced e))) @ ''_'' @ fmt_d (int (pRow (xPlaced e)))"
  proof
    fix e assume "e \<in> set done'"
    then obtain i where "i < length done'" "e = done' ! i"
      by (metis in_set_conv_nth)
    with ef have "exportedFrom cfg img i e" by simp
    then show "nameBase e = trimExt (Base (InputPath cfg)) @ ''_''
        @ fmt_d (int (pCol (xPlaced e))) @ ''_'' @ fmt_d (int (pRow (xPlaced e)))"
      by (rule exportedFrom_nameBase)
  qed
  with m lg show "\<exists>log done'. main env cfg img = Inr (log, done')
           \<and> log = concat (map (filesOf_main env cfg) done')
           \<and> (\<forall>e \<in> set done'.
                 nameBase e = trimExt (Base (InputPath cfg)) @ ''_''
                   @ fmt_d (int (pCol (xPlaced e))) @ ''_'' @ fmt_d (int (pRow (xPlaced e))))"
    by blast
qed

theorem file_base_names_witness:
  "NameRoot cfgPic = ''pic''
   \<and> exportTile permissive cfgPic
        \<lparr>Img = crop (blank 32 48) 0 32 32 16, TileCT = 2, FileBase = ''pic_1_0'',
          TileIndex = 0, RowIndex = 1,
          Placed = \<lparr>pRow = 2, pCol = 0, pH = 1, pW = 2, pCT = 2\<rparr>\<rparr> 1 [] =
       ([\<lparr>fdir = ''tiles'', fname = ''pic_1_0.bmp'',
           fdata = BMP (crop (blank 32 48) 0 32 32 16)\<rparr>,
         \<lparr>fdir = ''tiles'', fname = ''pic_1_0.paint'',
           fdata = Paint (tileNBT cfgPic
             \<lparr>Img = crop (blank 32 48) 0 32 32 16, TileCT = 2, FileBase = ''pic_1_0'',
               TileIndex = 0, RowIndex = 1,
               Placed = \<lparr>pRow = 2, pCol = 0, pH = 1, pW = 2, pCT = 2\<rparr>\<rparr> 1
             (rowMajor (crop (blank 32 48) 0 32 32 16) 32 16))\<rparr>], None)"
proof -
  let ?t2 = "\<lparr>Img = crop (blank 32 48) 0 32 32 16, TileCT = 2, FileBase = ''pic_1_0'',
          TileIndex = 0, RowIndex = 1,
          Placed = \<lparr>pRow = 2, pCol = 0, pH = 1, pW = 2, pCT = 2\<rparr>\<rparr>"
  have nr: "NameRoot cfgPic = ''pic''"
    by (simp add: cfgPic_def nameRootOf_trimExt trimExt_pic)
  have od: "OutDir cfgPic = ''tiles''"
    by (simp add: cfgPic_def)
  have cc: "\<And>d n. canCreate permissive d n"
    by (simp add: permissive_def)
  from file_base_names [OF parseFlags_cfgPic, of "blank 32 48" 3 2 permissive]
  obtain tiles where p: "MakeTilePlan (blank 32 48) 3 2 (NameRoot cfgPic) = Inr tiles"
    and q: "\<forall>t \<in> set tiles. \<forall>counter log.
      canCreate permissive (OutDir cfgPic) (FileBase t @ ''.bmp'')
      \<and> canCreate permissive (OutDir cfgPic) (FileBase t @ ''.paint'') \<longrightarrow>
      exportTile permissive cfgPic t counter log =
        (log @ [\<lparr>fdir = OutDir cfgPic, fname = FileBase t @ ''.bmp'', fdata = BMP (Img t)\<rparr>,
                \<lparr>fdir = OutDir cfgPic, fname = FileBase t @ ''.paint'',
                  fdata = Paint (tileNBT cfgPic t counter
                    (rowMajor (Img t) (Dx (Img t)) (Dy (Img t))))\<rparr>], None)"
    by blast
  from p have "?t2 \<in> set tiles"
    by (auto simp: MakeTilePlan_3x2 nr)
  with q cc have "exportTile permissive cfgPic ?t2 1 [] =
        ([] @ [\<lparr>fdir = OutDir cfgPic, fname = FileBase ?t2 @ ''.bmp'', fdata = BMP (Img ?t2)\<rparr>,
          \<lparr>fdir = OutDir cfgPic, fname = FileBase ?t2 @ ''.paint'',
            fdata = Paint (tileNBT cfgPic ?t2 1
              (rowMajor (Img ?t2) (Dx (Img ?t2)) (Dy (Img ?t2))))\<rparr>], None)"
    by blast
  with nr od show ?thesis by (simp add: crop_dims)
qed

text \<open>
  Claim C5 as stated fails on main.go. For a 48 by 32 image the second tile has
  row-group index 0 and tile index 1 in the plan, and main.go names its files
  \<open>pic_2_0\<close>, after column 2 and row 0.
\<close>

theorem main_48x32_second_name:
  "planIndices (MakeTilePlan (blank 48 32) 2 3 ''pic'') = Inr [(0, 0), (0, 1)]
   \<and> exportedNames (main permissive cfgPic (blank 48 32)) = Inr [''pic_0_0'', ''pic_2_0'']"
proof -
  have i: "InputPath cfgPic = ''in/pic.png''"
    by (simp add: cfgPic_def)
  have "exportedNames (main permissive cfgPic (blank 48 32)) =
      Inr [trimExt (Base (InputPath cfgPic)) @ ''_0_0'', trimExt (Base (InputPath cfgPic)) @ ''_2_0'']"
    by (rule main_48x32_names) (simp_all add: blank_dims permissive_mkdir)
  then show ?thesis by (simp add: MakeTilePlan_2x3 i trimExt_pic)
qed

section \<open>The pixel array of a descriptor\<close>

lemma rowMajor_packed: "packedRowMajor im (rowMajor im (Dx im) (Dy im))"
  unfolding packedRowMajor_def
proof (intro conjI allI impI)
  show "length (rowMajor im (Dx im) (Dy im)) = Dx im * Dy im"
    by (simp add: rowMajor_def)
  fix y x assume yx: "y < Dy im" "x < Dx im"
  have "y * Dx im + x < Suc y * Dx im" using yx(2) by simp
  also have "\<dots> \<le> Dy im * Dx im" using yx(1) by (intro mult_le_mono1) simp
  finally have lt: "y * Dx im + x < Dx im * Dy im" by (simp add: mult.commute)
  obtain r g b a where c: "ColorAt im x y = (r, g, b, a)" by (cases "ColorAt im x y") auto
  have "rowMajor im (Dx im) (Dy im) ! (y * Dx im + x) = packPixel (ColorAt im x y)"
    using lt rowMajor_index [OF yx(2), of y] by (simp add: rowMajor_def)
  then show "bytesOf (rowMajor im (Dx im) (Dy im) ! (y * Dx im + x)) =
      (case ColorAt im x y of (r, g, b, a) \<Rightarrow> (0xFF, hi8 r, hi8 g, hi8 b))"
    by (simp add: c bytesOf_packPixel)
qed

lemma unat_hi8: "unat (hi8 ch) = unat ch div 256 mod 256"
  by (simp add: hi8_def unsigned_ucast_eq take_bit_eq_mod drop_bit_eq_div unat_div)

lemma crop_ColorAt:
  assumes "x < w" and "y < h" and "x0 + x < Dx img" and "y0 + y < Dy img"
  shows "ColorAt (crop img x0 y0 w h) x y = toRGBA8 (ColorAt img (x0 + x) (y0 + y))"
  using assms by (simp add: crop_def)

lemma tileFrom_Img:
  assumes "tileFrom img nameRoot t"
  shows "Img t = crop img (pCol (Placed t) * 16) (pRow (Placed t) * 16)
                   (16 * pW (Placed t)) (16 * pH (Placed t))"
proof -
  from assms obtain can where can: "can \<in> set canvasTypes"
    "Img t = crop img (pCol (Placed t) * 16) (pRow (Placed t) * 16) (PxW can) (PxH can)"
    "pH (Placed t) = UnitsH can" "pW (Placed t) = UnitsW can"
    by (auto simp: tileFrom_def)
  with canvas_px [OF can(1)] show ?thesis by simp
qed

lemma exportedFrom_pixels:
  assumes "exportedFrom cfg img i e"
  shows "subImg e = crop img (pCol (xPlaced e) * 16) (pRow (xPlaced e) * 16)
                     (16 * pW (xPlaced e)) (16 * pH (xPlaced e))
    \<and> Pixels (nbtData e) = rowMajor (subImg e) (Dx (subImg e)) (Dy (subImg e))"
proof -
  from assms obtain can where can: "can \<in> set canvasTypes"
    "subImg e = crop img (pCol (xPlaced e) * 16) (pRow (xPlaced e) * 16) (PxW can) (PxH can)"
    "Pixels (nbtData e) = rowMajor (subImg e) (PxW can) (PxH can)"
    "pH (xPlaced e) = UnitsH can" "pW (xPlaced e) = UnitsW can"
    by (auto simp: exportedFrom_def)
  with canvas_px [OF can(1)] show ?thesis by (simp add: crop_dims)
qed

lemma MakeTilePlan_1x1:
  "MakeTilePlan img (Suc 0) (Suc 0) nameRoot =
      Inr [\<lparr>Img = crop img 0 0 16 16, TileCT = 0, FileBase = nameRoot @ ''_0_0'',
             TileIndex = 0, RowIndex = 0,
             Placed = \<lparr>pRow = 0, pCol = 0, pH = 1, pW = 1, pCT = 0\<rparr>\<rparr>]"
  by (simp add: eval_plan eval_fmt)

text \<open>
  Claim C6. For every tile of the plan the pixel loops of \<open>exportTile\<close> end without a
  write outside the array, and the array they build for the descriptor has one element
  per pixel of the cropped image, \<open>W * H\<close> in all with \<open>W\<close> and \<open>H\<close> 16 times the unit
  width and height of the tile. The bytes of element \<open>y * W + x\<close> are, most significant
  first, \<open>0xFF\<close> and the high bytes of the red, green and blue channels of the pixel at
  \<open>(x, y)\<close> of the cropped image; the high byte of a channel \<open>ch\<close> is \<open>ch div 256 mod 256\<close>.
  The cropped image is the source image cropped at 16 times the anchor cell, so that its
  pixel at \<open>(x, y)\<close> comes from the source pixel at the anchor offset plus \<open>(x, y)\<close>, with
  the same high bytes. The same holds for the descriptors of main.go.
\<close>

theorem descriptor_pixels:
  "(\<exists>tiles. MakeTilePlan img rows cols nameRoot = Inr tiles
      \<and> (\<forall>t \<in> set tiles. \<exists>pixels.
            buildPixels (Img t) = Inr pixels
            \<and> packedRowMajor (Img t) pixels
            \<and> Img t = crop img (pCol (Placed t) * 16) (pRow (Placed t) * 16)
                        (16 * pW (Placed t)) (16 * pH (Placed t))
            \<and> (\<forall>counter log.
                  canCreate env (OutDir cfg) (FileBase t @ ''.bmp'')
                  \<and> canCreate env (OutDir cfg) (FileBase t @ ''.paint'') \<longrightarrow>
                  exportTile env cfg t counter log =
                    (log @ [\<lparr>fdir = OutDir cfg, fname = FileBase t @ ''.bmp'',
                              fdata = BMP (Img t)\<rparr>,
                            \<lparr>fdir = OutDir cfg, fname = FileBase t @ ''.paint'',
                              fdata = Paint (tileNBT cfg t counter pixels)\<rparr>], None)
                  \<and> Pixels (tileNBT cfg t counter pixels) = pixels)))
   \<and> (Dx img mod 16 = 0 \<and> Dy img mod 16 = 0 \<and> canMkdir env (OutDir cfg) \<longrightarrow>
       (\<exists>log done'. main env cfg img = Inr (log, done')
          \<and> (\<forall>e \<in> set done'.
                packedRowMajor (subImg e) (Pixels (nbtData e))
                \<and> subImg e = crop img (pCol (xPlaced e) * 16) (pRow (xPlaced e) * 16)
                               (16 * pW (xPlaced e)) (16 * pH (xPlaced e)))))
   \<and> (x < w \<and> y < h \<and> x0 + x < Dx img \<and> y0 + y < Dy img \<longrightarrow>
       ColorAt (crop img x0 y0 w h) x y = toRGBA8 (ColorAt img (x0 + x) (y0 + y)))
   \<and> (\<forall>r g b a. toRGBA8 (r, g, b, a) = (widen8 r, widen8 g, widen8 b, widen8 a))
   \<and> (\<forall>ch. hi8 (widen8 ch) = hi8 ch \<and> unat (hi8 ch) = unat ch div 256 mod 256)"
proof (intro conjI impI allI)
  from MakeTilePlan_sound [of img rows cols nameRoot] obtain groups where
    p: "MakeTilePlan img rows cols nameRoot = Inr (concat groups)"
    and tf: "\<forall>t \<in> set (concat groups). tileFrom img nameRoot t"
    by blast
  have "\<forall>t \<in> set (concat groups). \<exists>pixels.
            buildPixels (Img t) = Inr pixels
            \<and> packedRowMajor (Img t) pixels
            \<and> Img t = crop img (pCol (Placed t) * 16) (pRow (Placed t) * 16)
                        (16 * pW (Placed t)) (16 * pH (Placed t))
            \<and> (\<forall>counter log.
                  canCreate env (OutDir cfg) (FileBase t @ ''.bmp'')
                  \<and> canCreate env (OutDir cfg) (FileBase t @ ''.paint'') \<longrightarrow>
                  exportTile env cfg t counter log =
                    (log @ [\<lparr>fdir = OutDir cfg, fname = FileBase t @ ''.bmp'',
                              fdata = BMP (Img t)\<rparr>,
                            \<lparr>fdir = OutDir cfg, fname = FileBase t @ ''.paint'',
                              fdata = Paint (tileNBT cfg t counter pixels)\<rparr>], None)
                  \<and> Pixels (tileNBT cfg t counter pixels) = pixels)"
  proof
    fix t assume "t \<in> set (concat groups)"
    with tf have f: "tileFrom img nameRoot t" by blast
    let ?px = "rowMajor (Img t) (Dx (Img t)) (Dy (Img t))"
    have "buildPixels (Img t) = Inr ?px" by (rule buildPixels_rowMajor)
    moreover have "packedRowMajor (Img t) ?px" by (rule rowMajor_packed)
    moreover note tileFrom_Img [OF f]
    moreover have "\<forall>counter log.
          canCreate env (OutDir cfg) (FileBase t @ ''.bmp'')
          \<and> canCreate env (OutDir cfg) (FileBase t @ ''.paint'') \<longrightarrow>
          exportTile env cfg t counter log =
            (log @ [\<lparr>fdir = OutDir cfg, fname = FileBase t @ ''.bmp'',
                      fdata = BMP (Img t)\<rparr>,
                    \<lparr>fdir = OutDir cfg, fname = FileBase t @ ''.paint'',
                      fdata = Paint (tileNBT cfg t counter ?px)\<rparr>], None)
          \<and> Pixels (tileNBT cfg t counter ?px) = ?px"
      using exportTile_ok [of env cfg t] by (simp add: tileNBT_def)
    ultimately show "\<exists>pixels.
            buildPixels (Img t) = Inr pixels
            \<and> packedRowMajor (Img t) pixels
            \<and> Img t = crop img (pCol (Placed t) * 16) (pRow (Placed t) * 16)
                        (16 * pW (Placed t)) (16 * pH (Placed t))
            \<and> (\<forall>counter log.
                  canCreate env (OutDir cfg) (FileBase t @ ''.bmp'')
                  \<and> canCreate env (OutDir cfg) (FileBase t @ ''.paint'') \<longrightarrow>
                  exportTile env cfg t counter log =
                    (log @ [\<lparr>fdir = OutDir cfg, fname = FileBase t @ ''.bmp'',
                              fdata = BMP (Img t)\<rparr>,
                            \<lparr>fdir = OutDir cfg, fname = FileBase t @ ''.paint'',
                              fdata = Paint (tileNBT cfg t counter pixels)\<rparr>], None)
                  \<and> Pixels (tileNBT cfg t counter pixels) = pixels)"
      by blast
  qed
  with p show "\<exists>tiles. MakeTilePlan img rows cols nameRoot = Inr tiles
      \<and> (\<forall>t \<in> set tiles. \<exists>pixels.
            buildPixels (Img t) = Inr pixels
            \<and> packedRowMajor (Img t) pixels
            \<and> Img t = crop img (pCol (Placed t) * 16) (pRow (Placed t) * 16)
                        (16 * pW (Placed t)) (16 * pH (Placed t))
            \<and> (\<forall>counter log.
                  canCreate env (OutDir cfg) (FileBase t @ ''.bmp'')
                  \<and> canCreate env (OutDir cfg) (FileBase t @ ''.paint'') \<longrightarrow>
                  exportTile env cfg t counter log =
                    (log @ [\<lparr>fdir = OutDir cfg, fname = FileBase t @ ''.bmp'',
                              fdata = BMP (Img t)\<rparr>,
                            \<lparr>fdir = OutDir cfg, fname = FileBase t @ ''.paint'',
                              fdata = Paint (tileNBT cfg t counter pixels)\<rparr>], None)
                  \<and> Pixels (tileNBT cfg t counter pixels) = pixels))"
    by blast
next
  assume "Dx img mod 16 = 0 \<and> Dy img mod 16 = 0 \<and> canMkdir env (OutDir cfg)"
  then have "Dx img mod 16 = 0" "Dy img mod 16 = 0" "canMkdir env (OutDir cfg)"
    by simp_all
  from main_sound [OF this] obtain log done' where
    m: "main env cfg img = Inr (log, done')"
    and ef: "\<forall>i < length done'. exportedFrom cfg img i (done' ! i)"
    by blast
  have "\<forall>e \<in> set done'.
      packedRowMajor (subImg e) (Pixels (nbtData e))
      \<and> subImg e = crop img (pCol (xPlaced e) * 16) (pRow (xPlaced e) * 16)
                     (16 * pW (xPlaced e)) (16 * pH (xPlaced e))"
  proof
    fix e assume "e \<in> set done'"
    then obtain i where "i < length done'" "e = done' ! i"
      by (metis in_set_conv_nth)
    with ef have "exportedFrom cfg img i e" by simp
    from exportedFrom_pixels [OF this] rowMajor_packed [of "subImg e"]
    show "packedRowMajor (subImg e) (Pixels (nbtData e))
      \<and> subImg e = crop img (pCol (xPlaced e) * 16) (pRow (xPlaced e) * 16)
                     (16 * pW (xPlaced e)) (16 * pH (xPlaced e))"
      by simp
  qed
  with m show "\<exists>log done'. main env cfg img = Inr (log, done')
          \<and> (\<forall>e \<in> set done'.
                packedRowMajor (subImg e) (Pixels (nbtData e))
                \<and> subImg e = crop img (pCol (xPlaced e) * 16) (pRow (xPlaced e) * 16)
                               (16 * pW (xPlaced e)) (16 * pH (xPlaced e)))"
    by blast
next
  assume "x < w \<and> y < h \<and> x0 + x < Dx img \<and> y0 + y < Dy img"
  then show "ColorAt (crop img x0 y0 w h) x y = toRGBA8 (ColorAt img (x0 + x) (y0 + y))"
    by (simp add: crop_ColorAt)
next
  fix r g b a :: "32 word"
  show "toRGBA8 (r, g, b, a) = (widen8 r, widen8 g, widen8 b, widen8 a)"
    by (simp add: toRGBA8_def)
next
  fix ch :: "32 word"
  show "hi8 (widen8 ch) = hi8 ch" by (rule hi8_widen8)
  show "unat (hi8 ch) = unat ch div 256 mod 256" by (rule unat_hi8)
qed

theorem descriptor_pixels_witness:
  "\<exists>pixels. buildPixels (crop ramp 0 0 16 16) = Inr pixels
     \<and> length pixels = 256
     \<and> bytesOf (pixels ! (3 * 16 + 5)) = (0xFF, 0x50, 0x30, 0xFF)"
proof -
  let ?im = "crop ramp 0 0 16 16"
  let ?t = "\<lparr>Img = ?im, TileCT = 0, FileBase = ''pic_0_0'',
             TileIndex = 0, RowIndex = 0,
             Placed = \<lparr>pRow = 0, pCol = 0, pH = 1, pW = 1, pCT = 0\<rparr>\<rparr>"
  note th = descriptor_pixels [of ramp "Suc 0" "Suc 0" "''pic''" permissive cfgPic,
      THEN conjunct1]
  then obtain tiles where p: "MakeTilePlan ramp (Suc 0) (Suc 0) ''pic'' = Inr tiles"
    and q: "\<And>t. t \<in> set tiles \<Longrightarrow> \<exists>pixels.
            buildPixels (Img t) = Inr pixels \<and> packedRowMajor (Img t) pixels"
    by (elim exE conjE) meson
  from p have "tiles = [?t]" by (simp add: MakeTilePlan_1x1)
  with q [of ?t] obtain pixels where
    px: "buildPixels ?im = Inr pixels" "packedRowMajor ?im pixels"
    by auto
  have d: "Dx ?im = 16" "Dy ?im = 16" by (simp_all add: crop_dims)
  from px(2) have len: "length pixels = Dx ?im * Dy ?im"
    and el: "\<forall>y < Dy ?im. \<forall>x < Dx ?im.
           bytesOf (pixels ! (y * Dx ?im + x)) =
             (case ColorAt ?im x y of (r, g, b, a) \<Rightarrow> (0xFF, hi8 r, hi8 g, hi8 b))"
    unfolding packedRowMajor_def by blast+
  have c: "ColorAt ?im 5 3 = (widen8 20480, widen8 12288, widen8 65535, widen8 65535)"
    by (simp add: crop_def ramp_def toRGBA8_def)
  have h: "hi8 20480 = 0x50" "hi8 12288 = 0x30" "hi8 65535 = 0xFF"
    by (simp_all add: hi8_def)
  from el [rule_format, of 3 5] have "bytesOf (pixels ! (3 * 16 + 5)) =
      (case ColorAt ?im 5 3 of (r, g, b, a) \<Rightarrow> (0xFF, hi8 r, hi8 g, hi8 b))"
    by (simp add: d)
  then have "bytesOf (pixels ! (3 * 16 + 5)) = (0xFF, 0x50, 0x30, 0xFF)"
    unfolding c by (simp add: hi8_widen8 h)
  moreover from len have "length pixels = 256" by (simp add: d)
  ultimately show ?thesis using px(1) by blast
qed

section \<open>Decimal formatting is injective\<close>

lemma digit_inj: "a < 10 \<Longrightarrow> b < 10 \<Longrightarrow> digit a = digit b \<Longrightarrow> a = b"
proof -
  assume a: "a < 10" and b: "b < 10" and e: "digit a = digit b"
  have d: "distinct ''0123456789''" by simp
  have "length ''0123456789'' = 10" by simp
  with a b e d show "a = b"
    unfolding digit_def by (metis nth_eq_iff_index_eq)
qed

lemma digit_not_minus: "a < 10 \<Longrightarrow> digit a \<noteq> CHR ''-''"
proof -
  assume "a < 10"
  then have "digit a \<in> set ''0123456789''"
    unfolding digit_def by (intro nth_mem) simp
  then show ?thesis by auto
qed

lemma dec_nonempty: "dec n \<noteq> []"
  by (subst dec.simps) simp

lemma dec_hd: "hd (dec n) \<noteq> CHR ''-''"
proof (induction n rule: dec.induct)
  case (1 n)
  show ?case
  proof (cases "n < 10")
    case True
    then show ?thesis by (subst dec.simps) (simp add: digit_not_minus)
  next
    case False
    with 1 have "hd (dec (n div 10)) \<noteq> CHR ''-''" by simp
    with False show ?thesis
      by (subst dec.simps) (simp add: dec_nonempty)
  qed
qed

lemma dec_inj: "dec a = dec b \<Longrightarrow> a = b"
proof (induction a arbitrary: b rule: dec.induct)
  case (1 a)
  show ?case
  proof (cases "a < 10")
    case True
    show ?thesis
    proof (cases "b < 10")
      case b: True
      from "1.prems" True b have "digit a = digit b"
        by (simp add: dec.simps [of a] dec.simps [of b])
      with True b show ?thesis by (rule digit_inj)
    next
      case b: False
      from "1.prems" True b have "[digit a] = dec (b div 10) @ [digit (b mod 10)]"
        by (simp add: dec.simps [of a] dec.simps [of b])
      then have "dec (b div 10) = []" by simp
      with dec_nonempty show ?thesis by blast
    qed
  next
    case False
    show ?thesis
    proof (cases "b < 10")
      case b: True
      from "1.prems" False b have "dec (a div 10) @ [digit (a mod 10)] = [digit b]"
        by (simp add: dec.simps [of a] dec.simps [of b])
      then have "dec (a div 10) = []" by simp
      with dec_nonempty show ?thesis by blast
    next
      case b: False
      from "1.prems" False b
      have "dec (a div 10) @ [digit (a mod 10)] = dec (b div 10) @ [digit (b mod 10)]"
        by (simp add: dec.simps [of a] dec.simps [of b])
      then have e: "dec (a div 10) = dec (b div 10)" "digit (a mod 10) = digit (b mod 10)"
        by simp_all
      from "1.IH" [OF False e(1)] have "a div 10 = b div 10" .
      moreover from e(2) have "a mod 10 = b mod 10"
        by (intro digit_inj) simp_all
      ultimately show ?thesis by (metis div_mult_mod_eq)
    qed
  qed
qed

lemma fmt_d_inj: "fmt_d i = fmt_d j \<Longrightarrow> i = j"
proof -
  assume e: "fmt_d i = fmt_d j"
  consider "i < 0" "j < 0" | "i < 0" "0 \<le> j" | "0 \<le> i" "j < 0" | "0 \<le> i" "0 \<le> j"
    by linarith
  then show "i = j"
  proof cases
    case 1
    with e have "dec (nat (- i)) = dec (nat (- j))" by (simp add: fmt_d_def)
    then have "nat (- i) = nat (- j)" by (rule dec_inj)
    with 1 show ?thesis by simp
  next
    case 2
    with e have "CHR ''-'' # dec (nat (- i)) = dec (nat j)" by (simp add: fmt_d_def)
    then have "hd (dec (nat j)) = CHR ''-''" by (metis list.sel(1))
    with dec_hd show ?thesis by blast
  next
    case 3
    with e have "dec (nat i) = CHR ''-'' # dec (nat (- j))" by (simp add: fmt_d_def)
    then have "hd (dec (nat i)) = CHR ''-''" by (metis list.sel(1))
    with dec_hd show ?thesis by blast
  next
    case 4
    with e have "dec (nat i) = dec (nat j)" by (simp add: fmt_d_def)
    then have "nat i = nat j" by (rule dec_inj)
    with 4 show ?thesis by simp
  qed
qed

lemma identityOf_inj:
  assumes "i < 2 ^ 64" and "j < 2 ^ 64" and "identityOf cfg i = identityOf cfg j"
  shows "i = j"
proof -
  from assms(3) have "fmt_d (sint (BaseID cfg + of_nat i)) = fmt_d (sint (BaseID cfg + of_nat j))"
    by (simp add: identityOf_def)
  then have "sint (BaseID cfg + of_nat i) = sint (BaseID cfg + of_nat j)"
    by (rule fmt_d_inj)
  then have "BaseID cfg + of_nat i = BaseID cfg + of_nat j"
    by (rule signed_word_eqI)
  then have "(of_nat i :: 64 word) = of_nat j" by simp
  then have "unat (of_nat i :: 64 word) = unat (of_nat j :: 64 word)" by simp
  then have "i mod 2 ^ LENGTH(64) = j mod 2 ^ LENGTH(64)" by (simp only: unat_of_nat)
  moreover have "LENGTH(64) = 64" by simp
  ultimately have "i mod 2 ^ 64 = j mod 2 ^ 64" by (simp only:)
  with assms(1,2) show ?thesis by (simp only: mod_less)
qed

lemma identities_distinct:
  assumes "n \<le> 2 ^ 64"
  shows "distinct (map (identityOf cfg) [0..<n])"
proof -
  have "inj_on (identityOf cfg) (set [0..<n])"
  proof (rule inj_onI)
    fix i j assume "i \<in> set [0..<n]" "j \<in> set [0..<n]" "identityOf cfg i = identityOf cfg j"
    with assms show "i = j" by (intro identityOf_inj [of i j cfg]) simp_all
  qed
  then show ?thesis by (simp add: distinct_map)
qed

section \<open>Tile identities\<close>

lemma firstFit_area_pos: "firstFit rows cols O' p \<Longrightarrow> 1 \<le> area p"
proof -
  assume "firstFit rows cols O' p"
  then obtain k where k: "k < length catalog" "catalog ! k = (pH p, pW p, pCT p)"
    by (auto simp: firstFit_def)
  then have "(pH p, pW p, pCT p) \<in> set catalog" by (metis nth_mem)
  then show ?thesis by (auto simp: catalog_eq area_def)
qed

lemma plan_length_le:
  assumes "tiling rows cols ps" and "greedy rows cols ps"
  shows "length ps \<le> rows * cols"
proof -
  have pos: "\<forall>p \<in> set ps. 1 \<le> area p"
  proof
    fix p assume "p \<in> set ps"
    then obtain i where "i < length ps" "p = ps ! i" by (metis in_set_conv_nth)
    with assms(2) have "firstFit rows cols (covered (take i ps)) p"
      by (simp add: greedy_def greedyAt_def)
    then show "1 \<le> area p" by (rule firstFit_area_pos)
  qed
  have "length ps \<le> sum_list (map area ps)"
    using pos by (induction ps) auto
  with assms(1) show ?thesis by (simp add: tiling_def)
qed

lemma paintNames_append: "paintNames (a @ b) = paintNames a @ paintNames b"
  by (induction a) (auto split: content.splits)

lemma exportTile_cases:
  "exportTile env cfg t counter log =
    (if \<not> canCreate env (OutDir cfg) (FileBase t @ ''.bmp'')
     then (log, Some (IOError (FileBase t @ ''.bmp'')))
     else if \<not> canCreate env (OutDir cfg) (FileBase t @ ''.paint'')
     then (log @ [\<lparr>fdir = OutDir cfg, fname = FileBase t @ ''.bmp'', fdata = BMP (Img t)\<rparr>],
           Some (IOError (FileBase t @ ''.paint'')))
     else (log @ [\<lparr>fdir = OutDir cfg, fname = FileBase t @ ''.bmp'', fdata = BMP (Img t)\<rparr>,
                  \<lparr>fdir = OutDir cfg, fname = FileBase t @ ''.paint'',
                    fdata = Paint (tileNBT cfg t counter
                                     (rowMajor (Img t) (Dx (Img t)) (Dy (Img t))))\<rparr>], None))"
  by (simp add: exportTile_def writeBMP_def writePaint_def buildPixels_rowMajor)

lemma paintFiles_append: "paintFiles (a @ b) = paintFiles a @ paintFiles b"
  by (induction a) (auto split: content.splits)

lemma paintNames_paintFiles: "paintNames fs = map (\<lambda>p. Name (snd p)) (paintFiles fs)"
  by (induction fs) (auto split: content.splits)

lemma exportLoop_paints:
  "\<exists>k \<le> length tiles.
     paintFiles (fst (exportLoop env cfg tiles counter log)) =
       paintFiles log @ map (\<lambda>i. descAt cfg (tiles ! i) (counter + of_nat i)) [0..<k]
     \<and> (snd (exportLoop env cfg tiles counter log) = None \<longrightarrow> k = length tiles)"
proof (induction tiles arbitrary: counter log)
  case Nil
  show ?case by simp
next
  case (Cons t rest)
  let ?bmp = "\<lparr>fdir = OutDir cfg, fname = FileBase t @ ''.bmp'', fdata = BMP (Img t)\<rparr>"
  let ?paint = "\<lparr>fdir = OutDir cfg, fname = FileBase t @ ''.paint'',
      fdata = Paint (tileNBT cfg t counter (rowMajor (Img t) (Dx (Img t)) (Dy (Img t))))\<rparr>"
  consider
    (nobmp) "\<not> canCreate env (OutDir cfg) (FileBase t @ ''.bmp'')"
  | (nopaint) "canCreate env (OutDir cfg) (FileBase t @ ''.bmp'')"
      "\<not> canCreate env (OutDir cfg) (FileBase t @ ''.paint'')"
  | (ok) "canCreate env (OutDir cfg) (FileBase t @ ''.bmp'')"
      "canCreate env (OutDir cfg) (FileBase t @ ''.paint'')"
    by blast
  then show ?case
  proof cases
    case nobmp
    then have "exportLoop env cfg (t # rest) counter log = (log, Some (IOError (FileBase t @ ''.bmp'')))"
      by (simp add: exportTile_cases)
    then show ?thesis by (intro exI [of _ 0]) simp
  next
    case nopaint
    then have "exportLoop env cfg (t # rest) counter log =
        (log @ [?bmp], Some (IOError (FileBase t @ ''.paint'')))"
      by (simp add: exportTile_cases)
    then show ?thesis by (intro exI [of _ 0]) (simp add: paintFiles_append)
  next
    case ok
    then have el: "exportLoop env cfg (t # rest) counter log =
        exportLoop env cfg rest (counter + 1) (log @ [?bmp, ?paint])"
      by (simp add: exportTile_cases)
    from Cons.IH [of "counter + 1" "log @ [?bmp, ?paint]"] obtain k where
      kk: "k \<le> length rest \<and>
      (paintFiles (fst (exportLoop env cfg rest (counter + 1) (log @ [?bmp, ?paint]))) =
        paintFiles (log @ [?bmp, ?paint]) @
          map (\<lambda>i. descAt cfg (rest ! i) (counter + 1 + of_nat i)) [0..<k] \<and>
      (snd (exportLoop env cfg rest (counter + 1) (log @ [?bmp, ?paint])) = None \<longrightarrow>
        k = length rest))" ..
    from kk have k: "k \<le> length rest"
      "paintFiles (fst (exportLoop env cfg rest (counter + 1) (log @ [?bmp, ?paint]))) =
        paintFiles (log @ [?bmp, ?paint]) @
          map (\<lambda>i. descAt cfg (rest ! i) (counter + 1 + of_nat i)) [0..<k]"
      "snd (exportLoop env cfg rest (counter + 1) (log @ [?bmp, ?paint])) = None \<longrightarrow>
        k = length rest"
      by (rule conjunct1, rule conjunct2 [THEN conjunct1], rule conjunct2 [THEN conjunct2])
    have nm: "paintFiles (log @ [?bmp, ?paint]) = paintFiles log @ [descAt cfg t counter]"
      by (simp add: paintFiles_append descAt_def)
    have sh: "map (\<lambda>i. descAt cfg ((t # rest) ! i) (counter + of_nat i)) [0..<Suc k] =
        descAt cfg t counter # map (\<lambda>i. descAt cfg (rest ! i) (counter + 1 + of_nat i)) [0..<k]"
      by (simp only: map_upt_Suc) (simp add: add.assoc)
    have "paintFiles (fst (exportLoop env cfg (t # rest) counter log)) =
        paintFiles log @
          map (\<lambda>i. descAt cfg ((t # rest) ! i) (counter + of_nat i)) [0..<Suc k]"
      unfolding el k(2) nm sh by simp
    moreover have "snd (exportLoop env cfg (t # rest) counter log) = None \<longrightarrow>
        Suc k = length (t # rest)"
      unfolding el using k(3) by simp
    ultimately show ?thesis using k(1) by (intro exI [of _ "Suc k"]) simp
  qed
qed

lemma descAt_descriptorOf: "descAt cfg t (0 + of_nat i) = descriptorOf cfg t i"
  by (simp add: descAt_def descriptorOf_def tileNBT_def sprintf_sd_def identityOf_def)

lemma descriptorOf_name: "Name (snd (descriptorOf cfg t i)) = identityOf cfg i"
  by (simp add: descriptorOf_def)

lemma main_Inr_dims:
  "main env cfg img = Inr out \<Longrightarrow>
   Dx img mod 16 = 0 \<and> Dy img mod 16 = 0 \<and> canMkdir env (OutDir cfg)"
  by (auto simp: main_def Let_def split: if_splits)

lemma run_aligned:
  assumes "Dx img mod 16 = 0" and "Dy img mod 16 = 0" and "canMkdir env (OutDir cfg)"
    and "MakeTilePlan img (Dy img div 16) (Dx img div 16) (NameRoot cfg) = Inr tiles"
  shows "run env cfg img = exportLoop env cfg tiles 0 []"
  using assms by (simp add: run_def Let_def)

lemma run_paints:
  assumes "(Dy img div 16) * (Dx img div 16) \<le> 2 ^ 64"
  shows "\<exists>tiles k. MakeTilePlan img (Dy img div 16) (Dx img div 16) (NameRoot cfg) = Inr tiles
      \<and> k \<le> length tiles \<and> k \<le> 2 ^ 64
      \<and> paintFiles (fst (run env cfg img)) = map (\<lambda>i. descriptorOf cfg (tiles ! i) i) [0..<k]
      \<and> (snd (run env cfg img) = None \<longrightarrow> k = length tiles)"
proof -
  let ?rows = "Dy img div 16" and ?cols = "Dx img div 16"
  from MakeTilePlan_sound [of img ?rows ?cols "NameRoot cfg"] obtain groups where
    p: "MakeTilePlan img ?rows ?cols (NameRoot cfg) = Inr (concat groups)"
    and ti: "tiling ?rows ?cols (map Placed (concat groups))"
    and gr: "greedy ?rows ?cols (map Placed (concat groups))"
    by blast
  let ?tiles = "concat groups"
  from plan_length_le [OF ti gr] assms have le: "length ?tiles \<le> 2 ^ 64" by simp
  show ?thesis
  proof (cases "Dx img mod 16 = 0 \<and> Dy img mod 16 = 0 \<and> canMkdir env (OutDir cfg)")
    case True
    then have r: "run env cfg img = exportLoop env cfg ?tiles 0 []"
      using p by (intro run_aligned) simp_all
    from exportLoop_paints [of ?tiles env cfg 0 "[]"] obtain k where
      kk: "k \<le> length ?tiles \<and>
        (paintFiles (fst (exportLoop env cfg ?tiles 0 [])) =
          paintFiles [] @ map (\<lambda>i. descAt cfg (?tiles ! i) (0 + of_nat i)) [0..<k] \<and>
        (snd (exportLoop env cfg ?tiles 0 []) = None \<longrightarrow> k = length ?tiles))" ..
    then have k1: "k \<le> length ?tiles"
      and k2: "paintFiles (fst (run env cfg img)) =
          map (\<lambda>i. descriptorOf cfg (?tiles ! i) i) [0..<k]"
      and k3: "snd (run env cfg img) = None \<longrightarrow> k = length ?tiles"
      unfolding r descAt_descriptorOf by simp_all
    from k1 le have "k \<le> 2 ^ 64" by (rule order_trans)
    with k1 k2 k3 p show ?thesis by (intro exI [of _ ?tiles] exI [of _ k]) simp
  next
    case False
    then have "fst (run env cfg img) = []" "snd (run env cfg img) \<noteq> None"
      using p by (auto simp: run_def Let_def)
    with p show ?thesis by (intro exI [of _ ?tiles] exI [of _ 0]) auto
  qed
qed

lemma main_names:
  assumes m: "main env cfg img = Inr (log, done')"
    and le: "(Dy img div 16) * (Dx img div 16) \<le> 2 ^ 64"
  shows "map (\<lambda>e. Name (nbtData e)) done' = map (identityOf cfg) [0..<length done']
    \<and> length done' \<le> 2 ^ 64"
proof -
  from main_Inr_dims [OF m] have "Dx img mod 16 = 0" "Dy img mod 16 = 0"
    "canMkdir env (OutDir cfg)" by simp_all
  from main_sound [OF this] m have
    ti: "tiling (Dy img div 16) (Dx img div 16) (map xPlaced done')"
    and gr: "greedy (Dy img div 16) (Dx img div 16) (map xPlaced done')"
    and ef: "\<forall>i < length done'. exportedFrom cfg img i (done' ! i)"
    by auto
  have "map (\<lambda>e. Name (nbtData e)) done' = map (identityOf cfg) [0..<length done']"
  proof (rule nth_equalityI)
    show "length (map (\<lambda>e. Name (nbtData e)) done') = length (map (identityOf cfg) [0..<length done'])"
      by simp
  next
    fix i assume "i < length (map (\<lambda>e. Name (nbtData e)) done')"
    then have i: "i < length done'" by simp
    with ef have "exportedFrom cfg img i (done' ! i)" by simp
    then have "Name (nbtData (done' ! i)) = identityOf cfg i"
      by (auto simp: exportedFrom_def sprintf_sd_def identityOf_def)
    with i show "map (\<lambda>e. Name (nbtData e)) done' ! i = map (identityOf cfg) [0..<length done'] ! i"
      by simp
  qed
  moreover from plan_length_le [OF ti gr] le have "length done' \<le> 2 ^ 64" by simp
  ultimately show ?thesis by simp
qed

lemma fmt_d_1000: "fmt_d 1000 = ''1000''" "fmt_d 1001 = ''1001''"
  by (simp_all add: fmt_d_def dec.simps digit_def)

lemma sint_1000: "sint (1000 :: 64 word) = 1000" "sint (1001 :: 64 word) = 1001"
  by simp_all

lemma identityOf_cfgPic:
  "identityOf cfgPic 0 = ''d1ebe29f-f4e9-4572-83cd-8b2cdbfc2420_1000''"
  "identityOf cfgPic (Suc 0) = ''d1ebe29f-f4e9-4572-83cd-8b2cdbfc2420_1001''"
proof -
  have b: "BaseID cfgPic = 1000" by (simp add: cfgPic_def)
  show "identityOf cfgPic 0 = ''d1ebe29f-f4e9-4572-83cd-8b2cdbfc2420_1000''"
    unfolding identityOf_def b by (simp add: sint_1000 fmt_d_1000 paintingUUID_def)
  have "(1000 :: 64 word) + of_nat (Suc 0) = 1001" by simp
  then show "identityOf cfgPic (Suc 0) = ''d1ebe29f-f4e9-4572-83cd-8b2cdbfc2420_1001''"
    unfolding identityOf_def b by (simp add: sint_1000 fmt_d_1000 paintingUUID_def)
qed

lemma run_32x48_ok: "snd (run permissive cfgPic (blank 32 48)) = None"
proof -
  have nr: "NameRoot cfgPic = ''pic''"
    by (simp add: cfgPic_def nameRootOf_trimExt trimExt_pic)
  have cc: "\<And>d n. canCreate permissive d n"
    by (simp add: permissive_def)
  have "run permissive cfgPic (blank 32 48) =
      exportLoop permissive cfgPic
        [\<lparr>Img = crop (blank 32 48) 0 0 32 32, TileCT = 1, FileBase = ''pic'' @ ''_0_0'',
             TileIndex = 0, RowIndex = 0,
             Placed = \<lparr>pRow = 0, pCol = 0, pH = 2, pW = 2, pCT = 1\<rparr>\<rparr>,
           \<lparr>Img = crop (blank 32 48) 0 32 32 16, TileCT = 2, FileBase = ''pic'' @ ''_1_0'',
             TileIndex = 0, RowIndex = 1,
             Placed = \<lparr>pRow = 2, pCol = 0, pH = 1, pW = 2, pCT = 2\<rparr>\<rparr>] 0 []"
    by (rule run_aligned) (simp_all add: blank_dims permissive_mkdir nr MakeTilePlan_3x2)
  then show ?thesis
    by (simp add: exportTile_cases cc)
qed

text \<open>
  Claim C7. The identity written into the descriptor of the tile with number \<open>i\<close> of a
  run is the namespace, an underscore and \<open>BaseID + i\<close> in decimal, the sum being taken
  in 64 bits: the counter starts at 0 and grows by one per tile exported, in the order
  of the plan. In a run of the refactored program the descriptor written as number \<open>i\<close>
  is that of tile \<open>i\<close> of the plan, under the file name, with the type code and the
  pixels of that tile, and it carries the identity of the number \<open>i\<close>; the descriptors
  written are those of the first \<open>k\<close> tiles of the plan, and of all of them when the run
  ends without an error. The tiles that main.go exports carry the identities of their
  numbers in the order exported. The identities of a run are pairwise distinct. The
  grid is taken to have at most \<open>2^64\<close> cells, more than an image whose sides are 64-bit
  integers lets a run reach.
\<close>

theorem tile_identities:
  assumes "(Dy img div 16) * (Dx img div 16) \<le> 2 ^ 64"
  shows "(\<exists>tiles k.
          MakeTilePlan img (Dy img div 16) (Dx img div 16) (NameRoot cfg) = Inr tiles
        \<and> k \<le> length tiles
        \<and> paintFiles (fst (run env cfg img)) =
            map (\<lambda>i. descriptorOf cfg (tiles ! i) i) [0..<k]
        \<and> paintNames (fst (run env cfg img)) = map (identityOf cfg) [0..<k]
        \<and> distinct (paintNames (fst (run env cfg img)))
        \<and> (snd (run env cfg img) = None \<longrightarrow> k = length tiles))
    \<and> (\<forall>log done'. main env cfg img = Inr (log, done') \<longrightarrow>
          map (\<lambda>e. Name (nbtData e)) done' = map (identityOf cfg) [0..<length done']
          \<and> distinct (map (\<lambda>e. Name (nbtData e)) done'))
    \<and> (\<forall>i. identityOf cfg i = paintingUUID @ ''_'' @ fmt_d (sint (BaseID cfg + of_nat i)))"
proof (intro conjI allI impI)
  from run_paints [OF assms, of cfg env] obtain tiles where
    "\<exists>k. MakeTilePlan img (Dy img div 16) (Dx img div 16) (NameRoot cfg) = Inr tiles
      \<and> k \<le> length tiles \<and> k \<le> 2 ^ 64
      \<and> paintFiles (fst (run env cfg img)) = map (\<lambda>i. descriptorOf cfg (tiles ! i) i) [0..<k]
      \<and> (snd (run env cfg img) = None \<longrightarrow> k = length tiles)" ..
  then obtain k where
    kk: "MakeTilePlan img (Dy img div 16) (Dx img div 16) (NameRoot cfg) = Inr tiles
      \<and> k \<le> length tiles \<and> k \<le> 2 ^ 64
      \<and> paintFiles (fst (run env cfg img)) = map (\<lambda>i. descriptorOf cfg (tiles ! i) i) [0..<k]
      \<and> (snd (run env cfg img) = None \<longrightarrow> k = length tiles)" ..
  then have p: "MakeTilePlan img (Dy img div 16) (Dx img div 16) (NameRoot cfg) = Inr tiles"
    and k: "k \<le> length tiles" and k64: "k \<le> 2 ^ 64"
    and files: "paintFiles (fst (run env cfg img)) =
        map (\<lambda>i. descriptorOf cfg (tiles ! i) i) [0..<k]"
    and fin: "snd (run env cfg img) = None \<longrightarrow> k = length tiles"
    by simp_all
  have names: "paintNames (fst (run env cfg img)) = map (identityOf cfg) [0..<k]"
    unfolding paintNames_paintFiles files by (simp add: descriptorOf_name)
  from identities_distinct [OF k64, of cfg] names
  have "distinct (paintNames (fst (run env cfg img)))" by simp
  with p k files names fin show "\<exists>tiles k.
          MakeTilePlan img (Dy img div 16) (Dx img div 16) (NameRoot cfg) = Inr tiles
        \<and> k \<le> length tiles
        \<and> paintFiles (fst (run env cfg img)) =
            map (\<lambda>i. descriptorOf cfg (tiles ! i) i) [0..<k]
        \<and> paintNames (fst (run env cfg img)) = map (identityOf cfg) [0..<k]
        \<and> distinct (paintNames (fst (run env cfg img)))
        \<and> (snd (run env cfg img) = None \<longrightarrow> k = length tiles)"
    by (intro exI [of _ tiles] exI [of _ k]) simp
next
  fix log done' assume m: "main env cfg img = Inr (log, done')"
  from main_names [OF m assms]
  show "map (\<lambda>e. Name (nbtData e)) done' = map (identityOf cfg) [0..<length done']"
    by simp
  from main_names [OF m assms] identities_distinct [of "length done'" cfg]
  show "distinct (map (\<lambda>e. Name (nbtData e)) done')"
    by simp
next
  fix i show "identityOf cfg i = paintingUUID @ ''_'' @ fmt_d (sint (BaseID cfg + of_nat i))"
    by (simp add: identityOf_def)
qed

theorem tile_identities_witness:
  "(3 :: nat) * 2 \<le> 2 ^ 64
   \<and> map fst (paintFiles (fst (run permissive cfgPic (blank 32 48)))) =
       [''pic_0_0.paint'', ''pic_1_0.paint'']
   \<and> map (\<lambda>p. nbtCT (snd p)) (paintFiles (fst (run permissive cfgPic (blank 32 48)))) = [1, 2]
   \<and> map (\<lambda>p. Name (snd p)) (paintFiles (fst (run permissive cfgPic (blank 32 48)))) =
       [''d1ebe29f-f4e9-4572-83cd-8b2cdbfc2420_1000'',
        ''d1ebe29f-f4e9-4572-83cd-8b2cdbfc2420_1001'']
   \<and> paintNames (fst (run permissive cfgPic (blank 32 48))) =
       [''d1ebe29f-f4e9-4572-83cd-8b2cdbfc2420_1000'',
        ''d1ebe29f-f4e9-4572-83cd-8b2cdbfc2420_1001'']"
proof -
  have nr: "NameRoot cfgPic = ''pic''"
    by (simp add: cfgPic_def nameRootOf_trimExt trimExt_pic)
  have hyp: "(Dy (blank 32 48) div 16) * (Dx (blank 32 48) div 16) \<le> 2 ^ 64"
    by (simp add: blank_dims)
  from tile_identities [OF hyp, of cfgPic permissive, THEN conjunct1] obtain tiles where
    "\<exists>k. MakeTilePlan (blank 32 48) (Dy (blank 32 48) div 16) (Dx (blank 32 48) div 16)
          (NameRoot cfgPic) = Inr tiles
      \<and> k \<le> length tiles
      \<and> paintFiles (fst (run permissive cfgPic (blank 32 48))) =
          map (\<lambda>i. descriptorOf cfgPic (tiles ! i) i) [0..<k]
      \<and> paintNames (fst (run permissive cfgPic (blank 32 48))) =
          map (identityOf cfgPic) [0..<k]
      \<and> distinct (paintNames (fst (run permissive cfgPic (blank 32 48))))
      \<and> (snd (run permissive cfgPic (blank 32 48)) = None \<longrightarrow> k = length tiles)" ..
  then obtain k where
    kk: "MakeTilePlan (blank 32 48) (Dy (blank 32 48) div 16) (Dx (blank 32 48) div 16)
          (NameRoot cfgPic) = Inr tiles
      \<and> k \<le> length tiles
      \<and> paintFiles (fst (run permissive cfgPic (blank 32 48))) =
          map (\<lambda>i. descriptorOf cfgPic (tiles ! i) i) [0..<k]
      \<and> paintNames (fst (run permissive cfgPic (blank 32 48))) =
          map (identityOf cfgPic) [0..<k]
      \<and> distinct (paintNames (fst (run permissive cfgPic (blank 32 48))))
      \<and> (snd (run permissive cfgPic (blank 32 48)) = None \<longrightarrow> k = length tiles)" ..
  from kk have p: "MakeTilePlan (blank 32 48) (Dy (blank 32 48) div 16)
          (Dx (blank 32 48) div 16) (NameRoot cfgPic) = Inr tiles"
    by (rule conjunct1)
  from kk have files: "paintFiles (fst (run permissive cfgPic (blank 32 48))) =
        map (\<lambda>i. descriptorOf cfgPic (tiles ! i) i) [0..<k]"
    by (rule conjunct2 [THEN conjunct2, THEN conjunct1])
  from kk have names: "paintNames (fst (run permissive cfgPic (blank 32 48))) =
        map (identityOf cfgPic) [0..<k]"
    by (rule conjunct2 [THEN conjunct2, THEN conjunct2, THEN conjunct1])
  from kk have fin: "snd (run permissive cfgPic (blank 32 48)) = None \<longrightarrow> k = length tiles"
    by (rule conjunct2 [THEN conjunct2, THEN conjunct2, THEN conjunct2, THEN conjunct2])
  from p have tiles: "tiles =
        [\<lparr>Img = crop (blank 32 48) 0 0 32 32, TileCT = 1, FileBase = ''pic'' @ ''_0_0'',
             TileIndex = 0, RowIndex = 0,
             Placed = \<lparr>pRow = 0, pCol = 0, pH = 2, pW = 2, pCT = 1\<rparr>\<rparr>,
           \<lparr>Img = crop (blank 32 48) 0 32 32 16, TileCT = 2, FileBase = ''pic'' @ ''_1_0'',
             TileIndex = 0, RowIndex = 1,
             Placed = \<lparr>pRow = 2, pCol = 0, pH = 1, pW = 2, pCT = 2\<rparr>\<rparr>]"
    by (simp add: blank_dims nr MakeTilePlan_3x2)
  from fin run_32x48_ok have k: "k = Suc (Suc 0)" by (simp add: tiles)
  have a: "map fst (paintFiles (fst (run permissive cfgPic (blank 32 48)))) =
       [''pic_0_0.paint'', ''pic_1_0.paint'']"
    unfolding files k by (simp add: upt_rec descriptorOf_def tiles)
  have b: "map (\<lambda>p. nbtCT (snd p)) (paintFiles (fst (run permissive cfgPic (blank 32 48)))) = [1, 2]"
    unfolding files k by (simp add: upt_rec descriptorOf_def tiles)
  have c: "map (\<lambda>p. Name (snd p)) (paintFiles (fst (run permissive cfgPic (blank 32 48)))) =
       [''d1ebe29f-f4e9-4572-83cd-8b2cdbfc2420_1000'',
        ''d1ebe29f-f4e9-4572-83cd-8b2cdbfc2420_1001'']"
    unfolding files k by (simp add: upt_rec descriptorOf_def identityOf_cfgPic)
  have d: "paintNames (fst (run permissive cfgPic (blank 32 48))) =
       [''d1ebe29f-f4e9-4572-83cd-8b2cdbfc2420_1000'',
        ''d1ebe29f-f4e9-4572-83cd-8b2cdbfc2420_1001'']"
    unfolding names k by (simp add: upt_rec identityOf_cfgPic)
  from a b c d show ?thesis by simp
qed


section \<open>The 32 by 48 image\<close>

text \<open>
  Claim C4, as the code has it. A 32 by 48 pixel image is a grid of 3 rows and 2 columns.
  Both programs place two tiles: type code 1 on rows 0 to 1, columns 0 to 1, then type
  code 2 on row 2, columns 0 to 1. \<open>MakeTilePlan\<close> gives the first tile row-group index 0
  and tile index 0 and the second row-group index 1 and tile index 0, so that their file
  bases end in \<open>_0_0\<close> and \<open>_1_0\<close>. The loop of main.go has no row-group index: it names
  a tile after the column and the row of its anchor cell, so that the base names end in
  \<open>_0_0\<close> and \<open>_0_2\<close>.
\<close>

theorem plan_32x48:
  assumes "Dx img = 32" and "Dy img = 48" and "canMkdir env (OutDir cfg)"
  shows "MakeTilePlan img (Dy img div 16) (Dx img div 16) nameRoot =
      Inr [\<lparr>Img = crop img 0 0 32 32, TileCT = 1, FileBase = nameRoot @ ''_0_0'',
             TileIndex = 0, RowIndex = 0,
             Placed = \<lparr>pRow = 0, pCol = 0, pH = 2, pW = 2, pCT = 1\<rparr>\<rparr>,
           \<lparr>Img = crop img 0 32 32 16, TileCT = 2, FileBase = nameRoot @ ''_1_0'',
             TileIndex = 0, RowIndex = 1,
             Placed = \<lparr>pRow = 2, pCol = 0, pH = 1, pW = 2, pCT = 2\<rparr>\<rparr>]
    \<and> exportedPlacements (main env cfg img) =
        Inr [\<lparr>pRow = 0, pCol = 0, pH = 2, pW = 2, pCT = 1\<rparr>,
             \<lparr>pRow = 2, pCol = 0, pH = 1, pW = 2, pCT = 2\<rparr>]
    \<and> exportedNames (main env cfg img) =
        Inr [trimExt (Base (InputPath cfg)) @ ''_0_0'', trimExt (Base (InputPath cfg)) @ ''_0_2'']"
proof -
  have a: "MakeTilePlan img 3 2 nameRoot =
      Inr [\<lparr>Img = crop img 0 0 32 32, TileCT = 1, FileBase = nameRoot @ ''_0_0'',
             TileIndex = 0, RowIndex = 0,
             Placed = \<lparr>pRow = 0, pCol = 0, pH = 2, pW = 2, pCT = 1\<rparr>\<rparr>,
           \<lparr>Img = crop img 0 32 32 16, TileCT = 2, FileBase = nameRoot @ ''_1_0'',
             TileIndex = 0, RowIndex = 1,
             Placed = \<lparr>pRow = 2, pCol = 0, pH = 1, pW = 2, pCT = 2\<rparr>\<rparr>]"
    by (simp add: eval_plan eval_fmt)
  have b: "exportedPlacements (main env cfg img) =
        Inr [\<lparr>pRow = 0, pCol = 0, pH = 2, pW = 2, pCT = 1\<rparr>,
             \<lparr>pRow = 2, pCol = 0, pH = 1, pW = 2, pCT = 2\<rparr>]"
    using assms by (simp add: exportedPlacements_def eval_main)
  have c: "exportedNames (main env cfg img) =
        Inr [trimExt (Base (InputPath cfg)) @ ''_0_0'', trimExt (Base (InputPath cfg)) @ ''_0_2'']"
    using assms by (simp add: exportedNames_def eval_main eval_fmt)
  from a b c assms show ?thesis by simp
qed

theorem plan_32x48_witness:
  "MakeTilePlan (blank 32 48) 3 2 ''pic'' =
      Inr [\<lparr>Img = crop (blank 32 48) 0 0 32 32, TileCT = 1, FileBase = ''pic_0_0'',
             TileIndex = 0, RowIndex = 0,
             Placed = \<lparr>pRow = 0, pCol = 0, pH = 2, pW = 2, pCT = 1\<rparr>\<rparr>,
           \<lparr>Img = crop (blank 32 48) 0 32 32 16, TileCT = 2, FileBase = ''pic_1_0'',
             TileIndex = 0, RowIndex = 1,
             Placed = \<lparr>pRow = 2, pCol = 0, pH = 1, pW = 2, pCT = 2\<rparr>\<rparr>]
    \<and> exportedPlacements (main permissive cfgPic (blank 32 48)) =
        Inr [\<lparr>pRow = 0, pCol = 0, pH = 2, pW = 2, pCT = 1\<rparr>,
             \<lparr>pRow = 2, pCol = 0, pH = 1, pW = 2, pCT = 2\<rparr>]
    \<and> exportedNames (main permissive cfgPic (blank 32 48)) = Inr [''pic_0_0'', ''pic_0_2'']"
proof -
  have d: "Dx (blank 32 48) = 32" "Dy (blank 32 48) = 48"
    by (simp_all add: blank_def)
  have m: "canMkdir permissive (OutDir cfgPic)"
    by (simp add: permissive_def)
  have i: "InputPath cfgPic = ''in/pic.png''"
    by (simp add: cfgPic_def)
  show ?thesis
    using plan_32x48 [OF d m, of "''pic''"] by (simp add: d i trimExt_pic)
qed

text \<open>
  Claim C4 as stated fails on main.go: for the 32 by 48 image its second tile is named
  \<open>pic_0_2\<close>, which ends neither in \<open>_1_0\<close> nor in \<open>_2_0\<close>.
\<close>

theorem main_32x48_names:
  "exportedNames (main permissive cfgPic (blank 32 48)) = Inr [''pic_0_0'', ''pic_0_2'']"
proof -
  have d: "Dx (blank 32 48) = 32" "Dy (blank 32 48) = 48"
    by (simp_all add: blank_def)
  have m: "canMkdir permissive (OutDir cfgPic)"
    by (simp add: permissive_def)
  have i: "InputPath cfgPic = ''in/pic.png''"
    by (simp add: cfgPic_def)
  have "exportedNames (main permissive cfgPic (blank 32 48)) =
      Inr [trimExt (Base (InputPath cfgPic)) @ ''_0_0'', trimExt (Base (InputPath cfgPic)) @ ''_0_2'']"
    using d m by (simp add: exportedNames_def eval_main eval_fmt)
  then show ?thesis by (simp add: i trimExt_pic)
qed

section \<open>The divisibility check\<close>




end
